theory Spec2Isabelle
  imports Main "HOL-Library.Sublist"
begin

section \<open>JavaScript strings and characters\<close>

text \<open>
  A JavaScript string is a sequence of UTF-16 code units. The model uses \<open>string\<close>
  and reads a \<open>char\<close> as a code unit below 256 (ASCII and Latin-1), which covers every
  character the patterns of the pipeline name. \<open>length\<close>, \<open>take\<close> and \<open>drop\<close> are
  then \<open>.length\<close> and \<open>substring\<close>.
\<close>

definition code_unit :: "char \<Rightarrow> nat" where
  "code_unit c = of_char c"

text \<open>The ECMAScript LineTerminator code units below 256: LF and CR.\<close>

definition is_line_terminator :: "char \<Rightarrow> bool" where
  "is_line_terminator c = (code_unit c = 10 \<or> code_unit c = 13)"

text \<open>
  The class \<open>\s\<close> and the characters removed by \<open>trim\<close>: WhiteSpace and
  LineTerminator (TAB, LF, VT, FF, CR, SPACE, NBSP).
\<close>

definition is_space :: "char \<Rightarrow> bool" where
  "is_space c = (let n = code_unit c in (9 \<le> n \<and> n \<le> 13) \<or> n = 32 \<or> n = 160)"

definition is_digit :: "char \<Rightarrow> bool" where
  "is_digit c = (let n = code_unit c in 48 \<le> n \<and> n \<le> 57)"

definition is_ascii_letter :: "char \<Rightarrow> bool" where
  "is_ascii_letter c = (let n = code_unit c in (65 \<le> n \<and> n \<le> 90) \<or> (97 \<le> n \<and> n \<le> 122))"

text \<open>
  Canonicalize of the ECMAScript regular expression semantics (ignoreCase, no unicode
  flag): the upper-case mapping of one code unit, kept only when it is one code unit
  and does not fold a non-ASCII character onto an ASCII one. The result is a code unit
  value: micro sign and y-diaeresis leave Latin-1.
\<close>

definition canonicalize :: "char \<Rightarrow> nat" where
  "canonicalize c = (let n = code_unit c in
     if 97 \<le> n \<and> n \<le> 122 then n - 32
     else if 224 \<le> n \<and> n \<le> 254 \<and> n \<noteq> 247 then n - 32
     else if n = 181 then 924
     else if n = 255 then 376
     else n)"

text \<open>\<open>String.prototype.toLowerCase\<close> on code units below 256.\<close>

definition to_lower_char :: "char \<Rightarrow> char" where
  "to_lower_char c = (let n = code_unit c in
     if 65 \<le> n \<and> n \<le> 90 then char_of (n + 32)
     else if 192 \<le> n \<and> n \<le> 222 \<and> n \<noteq> 215 then char_of (n + 32)
     else c)"

definition toLowerCase :: "string \<Rightarrow> string" where
  "toLowerCase s = map to_lower_char s"

definition trim :: "string \<Rightarrow> string" where
  "trim s = rev (dropWhile is_space (rev (dropWhile is_space s)))"

text \<open>\<open>s.split('\n')[0]\<close>: the text before the first line feed.\<close>

definition first_line :: "string \<Rightarrow> string" where
  "first_line s = takeWhile (\<lambda>c. code_unit c \<noteq> 10) s"

text \<open>\<open>s.includes(t)\<close> and \<open>s.startsWith(t)\<close>.\<close>

fun str_includes :: "string \<Rightarrow> string \<Rightarrow> bool" where
  "str_includes [] t = (t = [])"
| "str_includes (c # cs) t = (prefix t (c # cs) \<or> str_includes cs t)"

definition startsWith :: "string \<Rightarrow> string \<Rightarrow> bool" where
  "startsWith s t = prefix t s"

text \<open>Decimal rendering of a non-negative integer, as a template literal prints it.\<close>

fun show_nat :: "nat \<Rightarrow> string" where
  "show_nat n = (if n < 10 then [char_of (48 + n)]
                 else show_nat (n div 10) @ [char_of (48 + n mod 10)])"

text \<open>\<open>parseInt(s, 10)\<close> on a string of decimal digits (exact, unbounded).\<close>

definition parse_digits :: "string \<Rightarrow> int" where
  "parse_digits s = foldl (\<lambda>acc c. 10 * acc + (int (code_unit c) - 48)) 0 s"

section \<open>Regular expressions\<close>

text \<open>
  Every regular expression of the pipeline is a sequence of assertions (\<open>^\<close>, \<open>$\<close>)
  and greedy repetitions of one character class, and every capture group encloses
  exactly one such repetition. A literal character is a repetition with bounds 1 and 1.
\<close>

datatype cls =
    Dot                \<comment> \<open>\<open>.\<close>: anything but a line terminator\<close>
  | White              \<comment> \<open>\<open>\s\<close>\<close>
  | Digit              \<comment> \<open>\<open>\d\<close>\<close>
  | Ch char            \<comment> \<open>a literal character\<close>
  | OneOf "char list"  \<comment> \<open>an alternation of single characters\<close>
  | NonLetter          \<comment> \<open>\<open>[^a-zA-Z]\<close>\<close>

datatype atom =
    Bol                             \<comment> \<open>\<open>^\<close>\<close>
  | Eol                             \<comment> \<open>\<open>$\<close>\<close>
  | Rep bool cls nat "nat option"   \<comment> \<open>captured?, class, minimum, maximum\<close>

record regex =
  atoms :: "atom list"
  ignoreCase :: bool
  multiline :: bool

fun cls_ok :: "bool \<Rightarrow> cls \<Rightarrow> char \<Rightarrow> bool" where
  "cls_ok ic Dot c = (\<not> is_line_terminator c)"
| "cls_ok ic White c = is_space c"
| "cls_ok ic Digit c = is_digit c"
| "cls_ok ic (Ch x) c = (if ic then canonicalize c = canonicalize x else c = x)"
| "cls_ok ic (OneOf xs) c =
     (if ic then canonicalize c \<in> set (map canonicalize xs) else c \<in> set xs)"
| "cls_ok ic NonLetter c = (\<not> is_ascii_letter c)"

text \<open>
  A position in the input is the character before it (none at the start) and the text
  after it.
\<close>

definition at_bol :: "bool \<Rightarrow> char option \<Rightarrow> bool" where
  "at_bol ml prev = (case prev of None \<Rightarrow> True | Some c \<Rightarrow> ml \<and> is_line_terminator c)"

definition at_eol :: "bool \<Rightarrow> string \<Rightarrow> bool" where
  "at_eol ml rest = (case rest of [] \<Rightarrow> True | c # _ \<Rightarrow> ml \<and> is_line_terminator c)"

definition run_length :: "(char \<Rightarrow> bool) \<Rightarrow> nat option \<Rightarrow> string \<Rightarrow> nat" where
  "run_length p hi rest =
     (let n = length (takeWhile p rest) in case hi of None \<Rightarrow> n | Some h \<Rightarrow> min h n)"

definition prev_after :: "char option \<Rightarrow> string \<Rightarrow> char option" where
  "prev_after prev consumed = (if consumed = [] then prev else Some (last consumed))"

text \<open>
  A greedy quantifier tries the longest repetition first and gives characters back one
  at a time: \<open>rep_try f lo d\<close> is the first success among
  \<open>f (lo + d), \<dots>, f (lo + 1), f lo\<close>.
\<close>

fun rep_try :: "(nat \<Rightarrow> 'a option) \<Rightarrow> nat \<Rightarrow> nat \<Rightarrow> 'a option" where
  "rep_try f lo 0 = f lo"
| "rep_try f lo (Suc d) =
     (case f (lo + Suc d) of Some r \<Rightarrow> Some r | None \<Rightarrow> rep_try f lo d)"

text \<open>
  The backtracking matcher at one position: the number of characters matched and the
  captures, in order.
\<close>

primrec matchA :: "atom list \<Rightarrow> bool \<Rightarrow> bool \<Rightarrow> char option \<Rightarrow> string
                   \<Rightarrow> (nat \<times> string list) option" where
  "matchA [] ic ml prev rest = Some (0, [])"
| "matchA (a # as) ic ml prev rest =
     (case a of
        Bol \<Rightarrow> if at_bol ml prev then matchA as ic ml prev rest else None
      | Eol \<Rightarrow> if at_eol ml rest then matchA as ic ml prev rest else None
      | Rep cap c lo hi \<Rightarrow>
          (let n = run_length (cls_ok ic c) hi rest in
           if n < lo then None
           else rep_try
                  (\<lambda>k. case matchA as ic ml (prev_after prev (take k rest)) (drop k rest) of
                          None \<Rightarrow> None
                        | Some (len, caps) \<Rightarrow>
                            Some (k + len, (if cap then [take k rest] else []) @ caps))
                  lo (n - lo)))"

definition match_at :: "regex \<Rightarrow> char option \<Rightarrow> string \<Rightarrow> (nat \<times> string list) option" where
  "match_at re prev rest = matchA (atoms re) (ignoreCase re) (multiline re) prev rest"

text \<open>
  \<open>String.prototype.match\<close> and \<open>RegExp.prototype.test\<close> without the global flag:
  the leftmost match, as the matched text and its captures.
\<close>

fun find_first :: "regex \<Rightarrow> char option \<Rightarrow> string \<Rightarrow> (string \<times> string list) option" where
  "find_first re prev [] =
     (case match_at re prev [] of None \<Rightarrow> None | Some (len, caps) \<Rightarrow> Some ([], caps))"
| "find_first re prev (c # cs) =
     (case match_at re prev (c # cs) of
        None \<Rightarrow> find_first re (Some c) cs
      | Some (len, caps) \<Rightarrow> Some (take len (c # cs), caps))"

definition regex_match :: "regex \<Rightarrow> string \<Rightarrow> (string \<times> string list) option" where
  "regex_match re s = find_first re None s"

definition regex_test :: "regex \<Rightarrow> string \<Rightarrow> bool" where
  "regex_test re s = (regex_match re s \<noteq> None)"

text \<open>
  The loop \<open>while ((match = pattern.exec(content)) !== null)\<close> over a global pattern
  whose \<open>lastIndex\<close> starts at 0: every call searches from \<open>lastIndex\<close> and moves it
  to the end of the match. \<open>skip\<close> counts the characters left before \<open>lastIndex\<close>.
  An empty match leaves \<open>lastIndex\<close> where it is, so the loop finds it again for
  ever: the result is \<open>None\<close>.
\<close>

fun exec_loop :: "regex \<Rightarrow> char option \<Rightarrow> string \<Rightarrow> nat \<Rightarrow> (string \<times> string list) list option" where
  "exec_loop re prev [] skip =
     (case match_at re prev [] of
        None \<Rightarrow> Some []
      | Some (len, caps) \<Rightarrow> None)"
| "exec_loop re prev (c # cs) skip =
     (if 0 < skip then exec_loop re (Some c) cs (skip - 1)
      else case match_at re prev (c # cs) of
             None \<Rightarrow> exec_loop re (Some c) cs 0
           | Some (len, caps) \<Rightarrow>
               if len = 0 then None
               else map_option (Cons (take len (c # cs), caps))
                      (exec_loop re (Some c) cs (len - 1)))"

definition exec_all :: "regex \<Rightarrow> string \<Rightarrow> (string \<times> string list) list option" where
  "exec_all re s = exec_loop re None s 0"

text \<open>
  \<open>content.match(re)\<close> with the global flag: all matches from left to right; after an
  empty match the search moves on by one character.
\<close>

fun match_loop :: "regex \<Rightarrow> char option \<Rightarrow> string \<Rightarrow> nat \<Rightarrow> string list" where
  "match_loop re prev [] skip =
     (case match_at re prev [] of None \<Rightarrow> [] | Some (len, caps) \<Rightarrow> [[]])"
| "match_loop re prev (c # cs) skip =
     (if 0 < skip then match_loop re (Some c) cs (skip - 1)
      else case match_at re prev (c # cs) of
             None \<Rightarrow> match_loop re (Some c) cs 0
           | Some (len, caps) \<Rightarrow>
               take len (c # cs) # match_loop re (Some c) cs (len - 1))"

definition match_all :: "regex \<Rightarrow> string \<Rightarrow> string list" where
  "match_all re s = match_loop re None s 0"

definition lit :: "string \<Rightarrow> atom list" where
  "lit s = map (\<lambda>c. Rep False (Ch c) 1 (Some 1)) s"

section \<open>Duration parser\<close>

text \<open>\<open>/^(\d+)(m|h|d)$/\<close>\<close>

definition duration_re :: regex where
  "duration_re = \<lparr>atoms = [Bol, Rep True Digit 1 None, Rep True (OneOf ''mhd'') 1 (Some 1), Eol],
                   ignoreCase = False, multiline = False\<rparr>"

definition unit_ms :: "string \<Rightarrow> int" where
  "unit_ms u = (if u = ''m'' then 60 * 1000
                else if u = ''h'' then 60 * 60 * 1000
                else 24 * 60 * 60 * 1000)"

text \<open>
  \<open>parseDuration\<close> exists in two copies that differ in the default only: 30 minutes in
  \<open>src/selectSessions.js\<close>, 3 hours in the copy with the transcript check.
\<close>

definition parseDuration_with :: "int \<Rightarrow> string \<Rightarrow> int" where
  "parseDuration_with dflt duration =
     (case regex_match duration_re duration of
        Some (_, [v, unit]) \<Rightarrow> parse_digits v * unit_ms unit
      | _ \<Rightarrow> dflt)"

definition parseDuration :: "string \<Rightarrow> int" where
  "parseDuration = parseDuration_with (30 * 60 * 1000)"

definition parseDuration_3h :: "string \<Rightarrow> int" where
  "parseDuration_3h = parseDuration_with (3 * 60 * 60 * 1000)"

section \<open>Record store\<close>

text \<open>
  Modelled from the spec: the module \<open>lib/db\<close> is not among the sources. The record
  store boundary of the specification offers point lookup by identity, filtered range
  queries with ordering and limit, and insert, over named collections; every call
  answers \<open>{ data, error }\<close>. A collection is the list of its rows; a store that cannot
  be reached answers every call with an error.
\<close>

record session =
  s_id :: string
  project_slug :: "string option"
  status :: string
  created_at :: int

record project =
  p_id :: string
  p_slug :: "string option"
  p_name :: string

record clean_transcript =
  ct_session_id :: string
  clean_text :: "string option"

record evidence =
  session_id :: "string option"
  excerpt :: string
  location :: string

record item =
  bucket :: string
  title :: "string option"
  content :: string
  priority :: "string option"
  tags :: "string list"
  evidence :: "evidence list"

record row_metadata =
  m_evidence :: "evidence list"
  m_extractor :: string
  m_project_slug :: "string option"
  m_extracted_at :: int

record staged_row =
  r_bucket :: string
  r_category :: string
  r_content :: string
  r_title :: string
  r_priority :: string
  r_status :: string
  r_session_id :: string
  r_project_id :: string
  r_hash :: string
  r_metadata :: row_metadata
  r_created_at :: int

record store =
  online :: bool
  dev_ai_sessions :: "session list"
  dev_ai_clean_transcripts :: "clean_transcript list"
  dev_ai_smart_extractions :: "staged_row list"
  dev_projects :: "project list"
  insert_refused :: "staged_row \<Rightarrow> bool"

datatype 'a reply = Failed | Data 'a

text \<open>A filtered query, ordered by a key (stable), cut at an optional limit.\<close>

definition db_select :: "bool \<Rightarrow> 'a list \<Rightarrow> ('a \<Rightarrow> bool) \<Rightarrow> ('a \<Rightarrow> int) option \<Rightarrow> nat option
                          \<Rightarrow> 'a list reply" where
  "db_select up tbl flt ord lim =
     (if \<not> up then Failed
      else let rows = filter flt tbl;
               sorted_rows = (case ord of None \<Rightarrow> rows | Some k \<Rightarrow> sort_key k rows)
           in Data (case lim of None \<Rightarrow> sorted_rows | Some n \<Rightarrow> take n sorted_rows))"

text \<open>\<open>.single()\<close>: the one row of the answer; anything but exactly one row is an error.\<close>

definition db_single :: "'a list reply \<Rightarrow> 'a reply" where
  "db_single r = (case r of Failed \<Rightarrow> Failed | Data [x] \<Rightarrow> Data x | Data _ \<Rightarrow> Failed)"

section \<open>Session selector\<close>

record options =
  sessionId :: "string option"
  since :: string
  slugs :: "string list"
  limit :: nat
  status_opt :: "string option"

text \<open>A string option is truthy when it is present and not empty.\<close>

definition truthy :: "string option \<Rightarrow> bool" where
  "truthy x = (case x of None \<Rightarrow> False | Some s \<Rightarrow> s \<noteq> [])"

definition or_empty :: "string option \<Rightarrow> string" where
  "or_empty x = (case x of None \<Rightarrow> [] | Some s \<Rightarrow> s)"

text \<open>The two filter callbacks of the truth gate.\<close>

definition slug_filter :: "string list \<Rightarrow> session \<Rightarrow> bool" where
  "slug_filter sl s =
     (let sessionSlug = or_empty (project_slug s) in
      if 0 < length sl then
        (if sessionSlug = [] then False
         else list_ex (\<lambda>slug. str_includes sessionSlug slug) sl)
      else sessionSlug \<noteq> [] \<and> sessionSlug \<noteq> ''unassigned'' \<and> sessionSlug \<noteq> ''terminal'')"

definition select_by_id :: "store \<Rightarrow> string \<Rightarrow> session list" where
  "select_by_id st i =
     (case db_single (db_select (online st) (dev_ai_sessions st) (\<lambda>s. s_id s = i) None None) of
        Failed \<Rightarrow> []
      | Data d \<Rightarrow> [d])"

text \<open>\<open>selectSessions\<close> of \<open>src/selectSessions.js\<close>; \<open>now\<close> is \<open>Date.now()\<close>.\<close>

definition selectSessions :: "store \<Rightarrow> int \<Rightarrow> options \<Rightarrow> session list" where
  "selectSessions st now opts =
     (if truthy (sessionId opts) then select_by_id st (the (sessionId opts))
      else
        let cutoffMs = parseDuration (since opts);
            cutoffTime = now - cutoffMs
        in case db_select (online st) (dev_ai_sessions st)
                  (\<lambda>s. cutoffTime \<le> created_at s \<and> status s \<noteq> ''extracted''
                        \<and> (if truthy (status_opt opts) then status s = the (status_opt opts)
                            else True))
                  (Some created_at) (Some (limit opts * 3)) of
             Failed \<Rightarrow> []
           | Data sessions \<Rightarrow>
               if sessions = [] then []
               else take (limit opts) (filter (slug_filter (slugs opts)) sessions))"

text \<open>
  The copy of \<open>selectSessions\<close> with the transcript check: status \<open>cleaned\<close> only,
  newest first, and a session is kept only when its clean transcript exists.
\<close>

definition has_clean_transcript :: "store \<Rightarrow> session \<Rightarrow> bool" where
  "has_clean_transcript st s =
     (case db_single (db_select (online st) (dev_ai_clean_transcripts st)
                        (\<lambda>t. ct_session_id t = s_id s) None None) of
        Failed \<Rightarrow> False
      | Data _ \<Rightarrow> True)"

definition selectSessions_checked :: "store \<Rightarrow> int \<Rightarrow> options \<Rightarrow> session list" where
  "selectSessions_checked st now opts =
     (if truthy (sessionId opts) then select_by_id st (the (sessionId opts))
      else
        let cutoffMs = parseDuration_3h (since opts);
            cutoffTime = now - cutoffMs
        in case db_select (online st) (dev_ai_sessions st)
                  (\<lambda>s. status s = ''cleaned'' \<and> cutoffTime \<le> created_at s)
                  (Some (\<lambda>s. - created_at s)) (Some (limit opts * 3)) of
             Failed \<Rightarrow> []
           | Data sessions \<Rightarrow>
               if sessions = [] then []
               else take (limit opts)
                      (filter (has_clean_transcript st)
                         (filter (slug_filter (slugs opts)) sessions)))"

section \<open>Project resolver\<close>

record resolver =
  projectCache :: "project list option"
  cacheTime :: int

definition CACHE_TTL :: int where
  "CACHE_TTL = 5 * 60 * 1000"

definition loadProjects :: "resolver \<Rightarrow> int \<Rightarrow> store \<Rightarrow> project list \<times> resolver" where
  "loadProjects rs now st =
     (case projectCache rs of
        Some cached \<Rightarrow>
          if now - cacheTime rs < CACHE_TTL then (cached, rs)
          else (case db_select (online st) (dev_projects st) (\<lambda>_. True) None None of
                  Failed \<Rightarrow> ([], rs)
                | Data d \<Rightarrow> (d, \<lparr>projectCache = Some d, cacheTime = now\<rparr>))
      | None \<Rightarrow>
          (case db_select (online st) (dev_projects st) (\<lambda>_. True) None None of
             Failed \<Rightarrow> ([], rs)
           | Data d \<Rightarrow> (d, \<lparr>projectCache = Some d, cacheTime = now\<rparr>)))"

definition exact_match :: "string \<Rightarrow> project \<Rightarrow> bool" where
  "exact_match slug p = (p_slug p = Some slug)"

definition prefix_match :: "string \<Rightarrow> project \<Rightarrow> bool" where
  "prefix_match slug p = (truthy (p_slug p) \<and> startsWith (or_empty (p_slug p)) (slug @ ''-''))"

definition contains_match :: "string \<Rightarrow> project \<Rightarrow> bool" where
  "contains_match slug p = (truthy (p_slug p) \<and> str_includes (or_empty (p_slug p)) slug)"

definition match_projects :: "project list \<Rightarrow> string \<Rightarrow> string option" where
  "match_projects projects slug =
     (case find (exact_match slug) projects of
        Some m \<Rightarrow> Some (p_id m)
      | None \<Rightarrow>
          (case find (prefix_match slug) projects of
             Some m \<Rightarrow> Some (p_id m)
           | None \<Rightarrow>
               (case find (contains_match slug) projects of
                  Some m \<Rightarrow> Some (p_id m)
                | None \<Rightarrow> None)))"

definition resolveProjectId :: "resolver \<Rightarrow> int \<Rightarrow> store \<Rightarrow> string option
                                 \<Rightarrow> string option \<times> resolver" where
  "resolveProjectId rs now st slug =
     (if \<not> truthy slug \<or> slug = Some ''null'' \<or> slug = Some ''terminal''
         \<or> slug = Some ''unassigned''
      then (None, rs)
      else let (projects, rs') = loadProjects rs now st
           in (match_projects projects (the slug), rs'))"

section \<open>Extractor\<close>

text \<open>
  \<open>/^\s*MARKER\s*(.{10,200})$/gm\<close>, with the flag \<open>i\<close> for the word markers, and
  the checkbox pattern \<open>/^\s*(?:-|\*)\s*\[\s*\]\s+(.{10,200})$/gm\<close>.
\<close>

definition marker_re :: "string \<Rightarrow> regex" where
  "marker_re marker =
     \<lparr>atoms = [Bol, Rep False White 0 None] @ lit marker
                @ [Rep False White 0 None, Rep True Dot 10 (Some 200), Eol],
      ignoreCase = True, multiline = True\<rparr>"

definition checkbox_re :: regex where
  "checkbox_re =
     \<lparr>atoms = [Bol, Rep False White 0 None, Rep False (OneOf ''-*'') 1 (Some 1),
               Rep False White 0 None, Rep False (Ch CHR ''['') 1 (Some 1),
               Rep False White 0 None, Rep False (Ch CHR '']'') 1 (Some 1),
               Rep False White 1 None, Rep True Dot 10 (Some 200), Eol],
      ignoreCase = False, multiline = True\<rparr>"

definition PATTERNS_todo :: "regex list" where
  "PATTERNS_todo = [marker_re ''TODO:'', marker_re ''FIXME:'', marker_re ''ACTION ITEM:'',
                    checkbox_re]"

definition PATTERNS_bug :: "regex list" where
  "PATTERNS_bug = [marker_re ''BUG:'', marker_re ''ISSUE:'', marker_re ''ERROR:'']"

definition PATTERNS_decision :: "regex list" where
  "PATTERNS_decision = [marker_re ''DECISION:'', marker_re ''DECIDED:'']"

text \<open>\<open>/^USER:/gm\<close>, \<open>/^ASSISTANT:/gm\<close> and \<open>/^USER:\s*(.{20,200})/m\<close>.\<close>

definition turn_re :: "string \<Rightarrow> regex" where
  "turn_re marker = \<lparr>atoms = Bol # lit marker, ignoreCase = False, multiline = True\<rparr>"

definition first_user_re :: regex where
  "first_user_re =
     \<lparr>atoms = Bol # lit ''USER:'' @ [Rep False White 0 None, Rep True Dot 20 (Some 200)],
      ignoreCase = False, multiline = True\<rparr>"

definition worklog_topic :: "string \<Rightarrow> string" where
  "worklog_topic c =
     (case regex_match first_user_re c of
        Some (_, cap # _) \<Rightarrow> trim (first_line cap)
      | _ \<Rightarrow> ''Development work'')"

definition generateWorklog :: "string \<Rightarrow> session \<Rightarrow> item" where
  "generateWorklog c session =
     (let slug = (if truthy (project_slug session) then the (project_slug session)
                  else ''unknown'');
          userTurns = length (match_all (turn_re ''USER:'') c);
          assistantTurns = length (match_all (turn_re ''ASSISTANT:'') c);
          topic = worklog_topic c
      in \<lparr>bucket = ''Work Log'',
          title = Some (slug @ '': '' @ take 80 topic),
          content = ''Development session on '' @ slug @ ''. ''
                    @ show_nat (userTurns + assistantTurns) @ '' conversation turns.'',
          priority = None,
          tags = [slug],
          evidence = [\<lparr>session_id = Some (s_id session), excerpt = topic,
                       location = ''session-summary''\<rparr>]\<rparr>)"

definition rule_item :: "string \<Rightarrow> string option \<Rightarrow> session \<Rightarrow> string \<Rightarrow> string \<Rightarrow> item" where
  "rule_item b prio session text whole =
     \<lparr>bucket = b, title = Some (take 150 text), content = text, priority = prio, tags = [],
      evidence = [\<lparr>session_id = Some (s_id session), excerpt = take 150 whole,
                   location = ''strict-marker''\<rparr>]\<rparr>"

text \<open>
  The body of one \<open>while\<close> iteration: the trimmed capture becomes an item unless it
  is shorter than 10 characters or was seen before (compared in lower case).
\<close>

definition add_match :: "(string \<Rightarrow> string \<Rightarrow> item) \<Rightarrow> item list \<times> string set
                          \<Rightarrow> string \<times> string list \<Rightarrow> item list \<times> string set" where
  "add_match mk acc m =
     (case snd m of
        [] \<Rightarrow> acc
      | cap # _ \<Rightarrow>
          let text = trim cap in
          if text \<noteq> [] \<and> 10 \<le> length text \<and> toLowerCase text \<notin> snd acc
          then (fst acc @ [mk text (fst m)], insert (toLowerCase text) (snd acc))
          else acc)"

text \<open>One \<open>for\<close> loop over a pattern family; \<open>None\<close> when an \<open>exec\<close> loop never ends.\<close>

fun run_patterns :: "(string \<Rightarrow> string \<Rightarrow> item) \<Rightarrow> string \<Rightarrow> item list \<times> string set
                      \<Rightarrow> regex list \<Rightarrow> (item list \<times> string set) option" where
  "run_patterns mk c acc [] = Some acc"
| "run_patterns mk c acc (re # res) =
     (case exec_all re c of
        None \<Rightarrow> None
      | Some ms \<Rightarrow> run_patterns mk c (foldl (add_match mk) acc ms) res)"

definition extractWithRules :: "string \<Rightarrow> session \<Rightarrow> item list option" where
  "extractWithRules c session =
     (case run_patterns (rule_item ''Todos'' (Some ''medium'') session) c ([], {})
             PATTERNS_todo of
        None \<Rightarrow> None
      | Some acc1 \<Rightarrow>
          (case run_patterns (rule_item ''Bugs Open'' (Some ''high'') session) c acc1
                  PATTERNS_bug of
             None \<Rightarrow> None
           | Some acc2 \<Rightarrow>
               (case run_patterns (rule_item ''Decisions'' None session) c acc2
                       PATTERNS_decision of
                  None \<Rightarrow> None
                | Some acc3 \<Rightarrow> Some (fst acc3))))"

text \<open>
  The transcript that \<open>loadTranscript\<close> hands over; of its metadata only the slug is
  kept, nothing downstream reads the rest.
\<close>

record transcript =
  t_content :: string
  t_slug :: "string option"

definition extractItems :: "transcript option \<Rightarrow> session \<Rightarrow> item list option" where
  "extractItems tr session =
     (case tr of
        None \<Rightarrow> Some []
      | Some t \<Rightarrow>
          if t_content t = [] then Some []
          else (case extractWithRules (t_content t) session of
                  None \<Rightarrow> None
                | Some ruleItems \<Rightarrow> Some (generateWorklog (t_content t) session # ruleItems)))"

section \<open>Validator\<close>

definition VALID_BUCKETS :: "string list" where
  "VALID_BUCKETS =
     [''Bugs Open'', ''Bugs Fixed'', ''Todos'', ''Journal'', ''Work Log'', ''Ideas'',
      ''Decisions'', ''Lessons'', ''System Breakdown'', ''How-To Guide'', ''Schematic'',
      ''Reference'', ''Naming Conventions'', ''File Structure'', ''Database Patterns'',
      ''API Patterns'', ''Component Patterns'', ''Quirks & Gotchas'', ''Snippets'', ''Other'']"

text \<open>
  \<open>baseItemSchema\<close> as the JSON-schema validator reads it, all errors collected: one
  message for every keyword an item violates. An absent optional property (\<open>None\<close>) is
  not checked; an evidence entry without \<open>session_id\<close> misses a required property.
  Only whether the list is empty decides validity.
\<close>

definition evidence_errors :: "evidence \<Rightarrow> string list" where
  "evidence_errors e =
     (if session_id e = None then [''/evidence must have required property session_id'']
      else [])
     @ (if 500 < length (excerpt e)
        then [''/evidence/excerpt must NOT have more than 500 characters''] else [])"

definition validateBase :: "item \<Rightarrow> string list" where
  "validateBase i =
     (if bucket i \<in> set VALID_BUCKETS then []
      else [''/bucket must be equal to one of the allowed values''])
     @ (case title i of
          None \<Rightarrow> []
        | Some t \<Rightarrow>
            (if length t < 1 then [''/title must NOT have fewer than 1 characters'']
             else [])
            @ (if 500 < length t then [''/title must NOT have more than 500 characters'']
               else []))
     @ (if length (content i) < 5 then [''/content must NOT have fewer than 5 characters'']
        else [])
     @ (if 10000 < length (content i)
        then [''/content must NOT have more than 10000 characters''] else [])
     @ (case priority i of
          None \<Rightarrow> []
        | Some pr \<Rightarrow>
            if pr \<in> set [''low'', ''medium'', ''high'', ''critical''] then []
            else [''/priority must be equal to one of the allowed values''])
     @ (if length (evidence i) < 1 then [''/evidence must NOT have fewer than 1 items'']
        else [])
     @ concat (map evidence_errors (evidence i))"

text \<open>\<open>/^\|/\<close>, \<open>/^\[\d+\]/\<close>, \<open>/^http/\<close>, \<open>/^\s*$/\<close>, \<open>/^[^a-zA-Z]*$/\<close>\<close>

definition plain_re :: "atom list \<Rightarrow> regex" where
  "plain_re as = \<lparr>atoms = as, ignoreCase = False, multiline = False\<rparr>"

definition garbagePatterns :: "regex list" where
  "garbagePatterns =
     [plain_re (Bol # lit ''|''),
      plain_re (Bol # lit ''['' @ [Rep False Digit 1 None] @ lit '']''),
      plain_re (Bol # lit ''http''),
      plain_re [Bol, Rep False White 0 None, Eol],
      plain_re [Bol, Rep False NonLetter 0 None, Eol]]"

record validation =
  valid :: bool
  errors :: "string list"

definition validateItem :: "item \<Rightarrow> validation" where
  "validateItem i =
     (let errs =
            validateBase i
            @ (if trim (content i) = [] then [''content is empty or whitespace only'']
               else [])
            @ (if \<not> list_ex (\<lambda>e. truthy (session_id e)) (evidence i)
               then [''evidence must include at least one session_id''] else [])
            @ (if truthy (title i)
               then (if list_ex (\<lambda>p. regex_test p (the (title i))) garbagePatterns
                     then [''title appears to be garbage''] else [])
               else [])
            @ (if content i \<noteq> [] \<and> length (content i) < 10
               then [''content too short to be meaningful''] else [])
      in \<lparr>valid = (length errs = 0), errors = errs\<rparr>)"

fun join :: "string \<Rightarrow> string list \<Rightarrow> string" where
  "join sep [] = []"
| "join sep [x] = x"
| "join sep (x # y # ys) = x @ sep @ join sep (y # ys)"

definition validateItems :: "item list \<Rightarrow> item list \<times> (item \<times> string) list" where
  "validateItems items =
     (filter (\<lambda>i. valid (validateItem i)) items,
      map (\<lambda>i. (i, join ''; '' (errors (validateItem i))))
          (filter (\<lambda>i. \<not> valid (validateItem i)) items))"

section \<open>Stager\<close>

text \<open>
  The digest (\<open>crypto.createHash('md5')\<close>, printed in hexadecimal) is a library function
  and enters as the parameter \<open>md5\<close>.
\<close>

definition hash_input :: "item \<Rightarrow> string" where
  "hash_input i =
     join ''|'' [or_empty (title i),
                 take 200 (content i),
                 (case evidence i of [] \<Rightarrow> [] | e # _ \<Rightarrow> or_empty (session_id e))]"

definition generateHash :: "(string \<Rightarrow> string) \<Rightarrow> item \<Rightarrow> string" where
  "generateHash md5 i = md5 (hash_input i)"

definition isDuplicate :: "store \<Rightarrow> string \<Rightarrow> bool" where
  "isDuplicate st h =
     (case db_select (online st) (dev_ai_smart_extractions st) (\<lambda>r. r_hash r = h) None (Some 1) of
        Failed \<Rightarrow> False
      | Data d \<Rightarrow> 0 < length d)"

definition mapBucketToCategory :: "string \<Rightarrow> string" where
  "mapBucketToCategory b =
     (case map_of
        [(''Bugs Open'', ''bug''), (''Bugs Fixed'', ''bug''), (''Todos'', ''todo''),
         (''Journal'', ''general''), (''Work Log'', ''general''), (''Ideas'', ''knowledge''),
         (''Decisions'', ''decision''), (''Lessons'', ''lesson''),
         (''System Breakdown'', ''knowledge''), (''How-To Guide'', ''knowledge''),
         (''Schematic'', ''knowledge''), (''Reference'', ''knowledge''),
         (''Naming Conventions'', ''config''), (''File Structure'', ''config''),
         (''Database Patterns'', ''config''), (''API Patterns'', ''config''),
         (''Component Patterns'', ''config''), (''Quirks & Gotchas'', ''knowledge''),
         (''Snippets'', ''knowledge''), (''Other'', ''general'')] b of
        Some c \<Rightarrow> c
      | None \<Rightarrow> ''general'')"

record staging_result =
  inserted :: nat
  duplicates :: nat
  rejected :: nat
  error :: "string option"

definition make_row :: "(string \<Rightarrow> string) \<Rightarrow> int \<Rightarrow> item \<Rightarrow> string \<Rightarrow> string \<Rightarrow> string option
                         \<Rightarrow> staged_row" where
  "make_row md5 now i sessId projectId projectSlug =
     \<lparr>r_bucket = bucket i,
      r_category = mapBucketToCategory (bucket i),
      r_content = content i,
      r_title = (if truthy (title i) then the (title i) else first_line (take 200 (content i))),
      r_priority = (if truthy (priority i) then the (priority i) else ''medium''),
      r_status = ''pending'',
      r_session_id = sessId,
      r_project_id = projectId,
      r_hash = generateHash md5 i,
      r_metadata = \<lparr>m_evidence = evidence i, m_extractor = ''jason-v1'',
                     m_project_slug = projectSlug, m_extracted_at = now\<rparr>,
      r_created_at = now\<rparr>"

definition db_insert :: "store \<Rightarrow> staged_row \<Rightarrow> bool \<times> store" where
  "db_insert st r =
     (if \<not> online st \<or> insert_refused st r then (False, st)
      else (True, st\<lparr>dev_ai_smart_extractions := dev_ai_smart_extractions st @ [r]\<rparr>))"

text \<open>The \<open>for\<close> loop over the batch, with the three counters and the store.\<close>

fun stage_items :: "(string \<Rightarrow> string) \<Rightarrow> int \<Rightarrow> string \<Rightarrow> string \<Rightarrow> string option
                     \<Rightarrow> item list \<Rightarrow> staging_result \<times> store \<Rightarrow> staging_result \<times> store" where
  "stage_items md5 now sessId projectId projectSlug [] acc = acc"
| "stage_items md5 now sessId projectId projectSlug (i # is) (res, st) =
     (if isDuplicate st (generateHash md5 i)
      then stage_items md5 now sessId projectId projectSlug is
             (res\<lparr>duplicates := duplicates res + 1\<rparr>, st)
      else case db_insert st (make_row md5 now i sessId projectId projectSlug) of
             (False, st') \<Rightarrow>
               stage_items md5 now sessId projectId projectSlug is
                 (res\<lparr>rejected := rejected res + 1\<rparr>, st')
           | (True, st') \<Rightarrow>
               stage_items md5 now sessId projectId projectSlug is
                 (res\<lparr>inserted := inserted res + 1\<rparr>, st'))"

definition insertStaging :: "(string \<Rightarrow> string) \<Rightarrow> resolver \<Rightarrow> int \<Rightarrow> store \<Rightarrow> item list
                             \<Rightarrow> string \<Rightarrow> string option
                             \<Rightarrow> staging_result \<times> resolver \<times> store" where
  "insertStaging md5 rs now st items sessId projectSlug =
     (let (projectId, rs') =
            (if truthy projectSlug then resolveProjectId rs now st projectSlug
             else (None, rs))
      in if \<not> truthy projectId
         then (\<lparr>inserted = 0, duplicates = 0, rejected = length items,
                 error = Some ''project_id unresolved''\<rparr>, rs', st)
         else let (res, st') =
                    stage_items md5 now sessId (the projectId) projectSlug items
                      (\<lparr>inserted = 0, duplicates = 0, rejected = 0, error = None\<rparr>, st)
              in (res, rs', st'))"

section \<open>Properties of the matcher\<close>

lemma rep_try_SomeD:
  "rep_try f lo d = Some r \<Longrightarrow> \<exists>k. lo \<le> k \<and> k \<le> lo + d \<and> f k = Some r"
proof (induction d)
  case 0
  then show ?case by auto
next
  case (Suc d)
  show ?case
  proof (cases "f (lo + Suc d)")
    case None
    with Suc.prems have "rep_try f lo d = Some r" by simp
    from Suc.IH[OF this] obtain k where "lo \<le> k" "k \<le> lo + d" "f k = Some r" by blast
    then show ?thesis by (intro exI[of _ k]) simp
  next
    case (Some a)
    with Suc.prems have "f (lo + Suc d) = Some r" by simp
    then show ?thesis by (intro exI[of _ "lo + Suc d"]) simp
  qed
qed

lemma rep_try_None_iff:
  "rep_try f lo d = None \<longleftrightarrow> (\<forall>k. lo \<le> k \<and> k \<le> lo + d \<longrightarrow> f k = None)"
proof (induction d)
  case 0
  then show ?case by auto
next
  case (Suc d)
  show ?case
  proof (cases "f (lo + Suc d)")
    case None
    have "(\<forall>k. lo \<le> k \<and> k \<le> lo + Suc d \<longrightarrow> f k = None)
          \<longleftrightarrow> (\<forall>k. lo \<le> k \<and> k \<le> lo + d \<longrightarrow> f k = None)"
      using None by (metis le_Suc_eq add_Suc_right)
    with None Suc.IH show ?thesis by simp
  next
    case (Some a)
    then have "\<not> (\<forall>k. lo \<le> k \<and> k \<le> lo + Suc d \<longrightarrow> f k = None)"
      by (auto intro!: exI[of _ "lo + Suc d"])
    with Some show ?thesis by simp
  qed
qed


text \<open>Without the multiline flag a pattern that starts with \<open>^\<close> matches at index 0 only.\<close>

lemma find_first_anchored:
  "atoms re = Bol # as \<Longrightarrow> \<not> multiline re \<Longrightarrow> find_first re (Some c) rest = None"
  by (induction rest arbitrary: c) (simp_all add: match_at_def at_bol_def)

lemma regex_match_anchored:
  assumes "atoms re = Bol # as" "\<not> multiline re"
  shows "regex_match re s =
     (case match_at re None s of None \<Rightarrow> None | Some (len, caps) \<Rightarrow> Some (take len s, caps))"
  using assms by (cases s) (auto simp: regex_match_def find_first_anchored split: option.splits)

lemma takeWhile_take_all: "k \<le> length (takeWhile P s) \<Longrightarrow> \<forall>c\<in>set (take k s). P c"
proof (induction s arbitrary: k)
  case Nil
  then show ?case by simp
next
  case (Cons a s)
  then show ?case by (cases k) (auto split: if_splits)
qed

lemma cls_ok_Digit: "cls_ok ic Digit = is_digit"
  by (rule ext) simp

lemma cls_ok_White: "cls_ok ic White = is_space"
  by (rule ext) simp

section \<open>Duration parser: examples and fallback\<close>

text \<open>The form \<open><integer><unit>\<close>: one or more decimal digits, then one of m, h, d.\<close>

definition duration_form :: "string \<Rightarrow> bool" where
  "duration_form s =
     (s \<noteq> [] \<and> butlast s \<noteq> [] \<and> list_all is_digit (butlast s) \<and> last s \<in> set ''mhd'')"

lemma duration_match_form:
  assumes "match_at duration_re None s = Some r"
  shows "duration_form s"
proof -
  let ?n = "run_length (cls_ok False Digit) None s"
  let ?f = "\<lambda>k. case matchA [Rep True (OneOf ''mhd'') 1 (Some 1), Eol] False False
                        (prev_after None (take k s)) (drop k s) of
                  None \<Rightarrow> None
                | Some (len, caps) \<Rightarrow>
                    Some (k + len, (if True then [take k s] else []) @ caps)"
  from assms have n: "1 \<le> ?n" and rt: "rep_try ?f 1 (?n - 1) = Some r"
    by (auto simp: match_at_def duration_re_def at_bol_def Let_def split: if_splits)
  from rep_try_SomeD[OF rt] obtain k where k: "1 \<le> k" "k \<le> 1 + (?n - 1)" "?f k = Some r"
    by blast
  from k(2) n have kn: "k \<le> length (takeWhile is_digit s)"
    by (simp add: run_length_def cls_ok_Digit)
  have digs: "\<forall>c\<in>set (take k s). is_digit c" using takeWhile_take_all[OF kn] .
  from k(3) obtain r' where m2:
    "matchA [Rep True (OneOf ''mhd'') 1 (Some 1), Eol] False False
       (prev_after None (take k s)) (drop k s) = Some r'"
    by (auto split: option.splits)
  let ?t = "drop k s"
  from m2 have "1 \<le> run_length (cls_ok False (OneOf ''mhd'')) (Some 1) ?t"
    by (auto simp: Let_def split: if_splits)
  then obtain u t' where t: "?t = u # t'" and u: "u \<in> set ''mhd''"
    by (cases ?t) (auto simp: run_length_def split: if_splits)
  from m2 t u have "t' = []"
    by (auto simp: Let_def run_length_def at_eol_def split: if_splits option.splits list.splits)
  with t have s: "s = take k s @ [u]" by (metis append_take_drop_id)
  have ne: "take k s \<noteq> []" using k(1) kn by (cases s) auto
  from s have "butlast s = take k s" "last s = u" "s \<noteq> []"
    by (metis butlast_snoc, metis last_snoc, metis snoc_eq_iff_butlast)
  with ne digs u show ?thesis
    unfolding duration_form_def by (simp add: list_all_iff)
qed

lemma parseDuration_with_fallback:
  assumes nf: "\<not> duration_form s"
  shows "parseDuration_with d s = d"
proof -
  have "match_at duration_re None s = None"
    using duration_match_form nf by (cases "match_at duration_re None s") auto
  then have "regex_match duration_re s = None"
    by (subst regex_match_anchored[where
          as="[Rep True Digit 1 None, Rep True (OneOf ''mhd'') 1 (Some 1), Eol]"])
       (simp_all add: duration_re_def)
  then show ?thesis by (simp add: parseDuration_with_def)
qed

lemma parseDuration_30m: "parseDuration ''30m'' = 1800000"
  by code_simp

lemma parseDuration_2h: "parseDuration ''2h'' = 7200000"
  by code_simp

text \<open>
  Claim C9. \<open>parseDuration\<close> maps \<open>"30m"\<close> to 1,800,000 ms and \<open>"2h"\<close> to 7,200,000 ms,
  and every string that is not of the form \<open><integer><unit>\<close> with unit m, h or d is
  mapped to the one fixed default of the copy at hand (30 minutes in
  \<open>src/selectSessions.js\<close>, 3 hours in the copy with the transcript check); the function
  is total, so it never fails on a string.
\<close>

theorem parseDuration_examples_and_default:
  "parseDuration ''30m'' = 1800000 \<and> parseDuration ''2h'' = 7200000
   \<and> parseDuration_3h ''30m'' = 1800000 \<and> parseDuration_3h ''2h'' = 7200000
   \<and> (\<forall>s. \<not> duration_form s \<longrightarrow>
          parseDuration s = 30 * 60 * 1000 \<and> parseDuration_3h s = 3 * 60 * 60 * 1000)"
proof -
  have "parseDuration_3h ''30m'' = 1800000" "parseDuration_3h ''2h'' = 7200000"
    by code_simp+
  then show ?thesis
    using parseDuration_30m parseDuration_2h
    by (simp add: parseDuration_def parseDuration_3h_def parseDuration_with_fallback)
qed

theorem parseDuration_examples_and_default_witness:
  "\<not> duration_form ''soon'' \<and> parseDuration ''soon'' = 1800000
   \<and> parseDuration_3h ''soon'' = 10800000"
proof -
  have nf: "\<not> duration_form ''soon''"
    by (simp add: duration_form_def)
  from parseDuration_examples_and_default
  have "\<forall>s. \<not> duration_form s \<longrightarrow>
          parseDuration s = 30 * 60 * 1000 \<and> parseDuration_3h s = 3 * 60 * 60 * 1000"
    by blast
  with nf show ?thesis by simp
qed

section \<open>Session selector: truth gate and status gate\<close>

lemma str_includes_iff: "str_includes s t \<longleftrightarrow> (\<exists>a b. s = a @ t @ b)"
proof (induction s)
  case Nil
  then show ?case by auto
next
  case (Cons c cs)
  show ?case
  proof
    assume "str_includes (c # cs) t"
    then consider "prefix t (c # cs)" | "str_includes cs t" by auto
    then show "\<exists>a b. c # cs = a @ t @ b"
    proof cases
      case 1
      then obtain b where "c # cs = t @ b" by (auto simp: prefix_def)
      then have "c # cs = [] @ t @ b" by simp
      then show ?thesis by blast
    next
      case 2
      with Cons.IH obtain a b where "cs = a @ t @ b" by blast
      then have "c # cs = (c # a) @ t @ b" by simp
      then show ?thesis by blast
    qed
  next
    assume "\<exists>a b. c # cs = a @ t @ b"
    then obtain a b where ab: "c # cs = a @ t @ b" by blast
    show "str_includes (c # cs) t"
    proof (cases a)
      case Nil
      with ab have "prefix t (c # cs)" by (simp add: prefix_def)
      then show ?thesis by simp
    next
      case (Cons x a')
      with ab have "cs = a' @ t @ b" by simp
      with Cons.IH have "str_includes cs t" by blast
      then show ?thesis by simp
    qed
  qed
qed

text \<open>
  The truth gate in the words of the specification: the slug is present and not empty,
  and with no allowed slugs it is neither sentinel, with allowed slugs it contains one
  of them as a substring.
\<close>

definition passes_truth_gate :: "string list \<Rightarrow> session \<Rightarrow> bool" where
  "passes_truth_gate allowed s =
     (\<exists>sl. project_slug s = Some sl \<and> sl \<noteq> [] \<and>
        (if allowed = [] then sl \<noteq> ''unassigned'' \<and> sl \<noteq> ''terminal''
         else \<exists>t\<in>set allowed. \<exists>a b. sl = a @ t @ b))"

lemma slug_filter_iff: "slug_filter allowed s \<longleftrightarrow> passes_truth_gate allowed s"
proof (cases "project_slug s")
  case None
  then show ?thesis
    by (simp add: slug_filter_def passes_truth_gate_def or_empty_def)
next
  case (Some sl)
  then show ?thesis
    by (auto simp: slug_filter_def passes_truth_gate_def or_empty_def list_ex_iff
                   str_includes_iff)
qed

lemma db_select_DataD:
  "db_select up tbl flt ord lim = Data rows \<Longrightarrow> x \<in> set rows \<Longrightarrow> x \<in> set tbl \<and> flt x"
  by (auto simp: db_select_def Let_def split: if_splits option.splits dest: in_set_takeD)

lemma selectSessions_window_member:
  assumes "\<not> truthy (sessionId opts)" and "s \<in> set (selectSessions st now opts)"
  shows "slug_filter (slugs opts) s \<and> status s \<noteq> ''extracted''
         \<and> s \<in> set (dev_ai_sessions st)
         \<and> now - parseDuration (since opts) \<le> created_at s
         \<and> (if truthy (status_opt opts) then status s = the (status_opt opts) else True)"
proof -
  let ?flt = "\<lambda>s. now - parseDuration (since opts) \<le> created_at s \<and> status s \<noteq> ''extracted''
                  \<and> (if truthy (status_opt opts) then status s = the (status_opt opts) else True)"
  let ?q = "db_select (online st) (dev_ai_sessions st) ?flt (Some created_at)
              (Some (limit opts * 3))"
  from assms obtain rows where q: "?q = Data rows"
    and s: "s \<in> set (take (limit opts) (filter (slug_filter (slugs opts)) rows))"
    by (cases ?q) (auto simp: selectSessions_def Let_def split: if_splits)
  from s have "s \<in> set rows" "slug_filter (slugs opts) s"
    by (auto dest: in_set_takeD)
  with db_select_DataD[OF q] show ?thesis by blast
qed

lemma selectSessions_checked_window_member:
  assumes "\<not> truthy (sessionId opts)" and "s \<in> set (selectSessions_checked st now opts)"
  shows "slug_filter (slugs opts) s \<and> status s = ''cleaned''
         \<and> s \<in> set (dev_ai_sessions st) \<and> has_clean_transcript st s"
proof -
  let ?flt = "\<lambda>s. status s = ''cleaned'' \<and> now - parseDuration_3h (since opts) \<le> created_at s"
  let ?q = "db_select (online st) (dev_ai_sessions st) ?flt (Some (\<lambda>s. - created_at s))
              (Some (limit opts * 3))"
  from assms obtain rows where q: "?q = Data rows"
    and s: "s \<in> set (take (limit opts) (filter (has_clean_transcript st)
                    (filter (slug_filter (slugs opts)) rows)))"
    by (cases ?q) (auto simp: selectSessions_checked_def Let_def split: if_splits)
  from s have "s \<in> set rows" "slug_filter (slugs opts) s" "has_clean_transcript st s"
    by (auto dest: in_set_takeD)
  with db_select_DataD[OF q] show ?thesis by blast
qed

text \<open>Two sessions of one project, the second newer, and a third already extracted.\<close>

definition session_a :: session where
  "session_a = \<lparr>s_id = ''a'', project_slug = Some ''ai-jason-5408'', status = ''cleaned'',
                 created_at = 1000\<rparr>"

definition session_b :: session where
  "session_b = \<lparr>s_id = ''b'', project_slug = Some ''ai-jason-5408'', status = ''cleaned'',
                 created_at = 2000\<rparr>"

definition session_x :: session where
  "session_x = \<lparr>s_id = ''x'', project_slug = Some ''ai-jason-5408'', status = ''extracted'',
                 created_at = 1500\<rparr>"

definition example_store :: store where
  "example_store =
     \<lparr>online = True,
      dev_ai_sessions = [session_b, session_x, session_a],
      dev_ai_clean_transcripts =
        [\<lparr>ct_session_id = ''a'', clean_text = Some ''TODO: fix the login bug''\<rparr>,
         \<lparr>ct_session_id = ''b'', clean_text = Some ''BUG: payments fail silently''\<rparr>,
         \<lparr>ct_session_id = ''x'', clean_text = Some ''TODO: fix the login bug''\<rparr>],
      dev_ai_smart_extractions = [],
      dev_projects = [\<lparr>p_id = ''p-1'', p_slug = Some ''ai-jason-5408'', p_name = ''Jason''\<rparr>],
      insert_refused = (\<lambda>_. False)\<rparr>"

definition window_options :: "nat \<Rightarrow> options" where
  "window_options n =
     \<lparr>sessionId = None, since = ''30m'', slugs = [''ai-jason''], limit = n,
      status_opt = Some ''cleaned''\<rparr>"

lemma example_window_2:
  "selectSessions example_store 3000 (window_options 2) = [session_a, session_b]"
  by code_simp

text \<open>
  Claim C3. Every session that window-mode selection returns passes the truth gate: its
  project slug is not empty, and it is neither \<open>unassigned\<close> nor \<open>terminal\<close> when no
  slugs are allowed, and contains an allowed slug as a substring otherwise. So a
  session that fails the gate is never in the result, whatever its transcript. Both
  copies of the selector apply the gate.
\<close>

theorem window_selection_passes_truth_gate:
  assumes "\<not> truthy (sessionId opts)"
  shows "(\<forall>s\<in>set (selectSessions st now opts). passes_truth_gate (slugs opts) s)
         \<and> (\<forall>s\<in>set (selectSessions_checked st now opts). passes_truth_gate (slugs opts) s)"
  using assms selectSessions_window_member selectSessions_checked_window_member
  by (auto simp: slug_filter_iff)

theorem window_selection_passes_truth_gate_witness:
  "\<not> truthy (sessionId (window_options 2))
   \<and> session_a \<in> set (selectSessions example_store 3000 (window_options 2))
   \<and> passes_truth_gate (slugs (window_options 2)) session_a"
proof -
  have h: "\<not> truthy (sessionId (window_options 2))"
    by (simp add: window_options_def truthy_def)
  have m: "session_a \<in> set (selectSessions example_store 3000 (window_options 2))"
    by (simp add: example_window_2)
  from window_selection_passes_truth_gate[OF h, of example_store 3000] m
  have "passes_truth_gate (slugs (window_options 2)) session_a" by blast
  with h m show ?thesis by simp
qed

definition by_id_options :: "string \<Rightarrow> options" where
  "by_id_options i =
     \<lparr>sessionId = Some i, since = ''30m'', slugs = [''ai-jason''], limit = 10,
      status_opt = Some ''cleaned''\<rparr>"

lemma select_by_id_single:
  assumes "online st" and "filter (\<lambda>s. s_id s = i) (dev_ai_sessions st) = [x]"
  shows "select_by_id st i = [x]"
  using assms by (simp add: select_by_id_def db_select_def db_single_def)

lemma example_by_id_x: "selectSessions example_store 3000 (by_id_options ''x'') = [session_x]"
  by code_simp




section \<open>Project resolver and the stager's guardrail\<close>

lemma exact_match_contains: "s \<noteq> [] \<Longrightarrow> exact_match s p \<Longrightarrow> contains_match s p"
proof -
  assume "s \<noteq> []" "exact_match s p"
  moreover have "str_includes s s" using str_includes_iff[of s s] by (metis append_Nil append_Nil2)
  ultimately show ?thesis
    by (simp add: exact_match_def contains_match_def truthy_def or_empty_def)
qed

lemma prefix_match_contains: "prefix_match s p \<Longrightarrow> contains_match s p"
proof -
  assume pm: "prefix_match s p"
  then obtain ps where ps: "p_slug p = Some ps" "ps \<noteq> []" "prefix (s @ ''-'') ps"
    by (cases "p_slug p") (auto simp: prefix_match_def truthy_def or_empty_def startsWith_def)
  then obtain b where "ps = (s @ ''-'') @ b" by (auto simp: prefix_def)
  then have "ps = [] @ s @ (''-'' @ b)" by simp
  then have "str_includes ps s" unfolding str_includes_iff by blast
  with ps show ?thesis by (simp add: contains_match_def truthy_def or_empty_def)
qed

lemma find_None_all: "\<forall>p\<in>set ps. \<not> P p \<Longrightarrow> find P ps = None"
  by (simp add: find_None_iff)

lemma match_projects_none:
  assumes "s \<noteq> []" and "\<forall>p\<in>set projects. \<not> contains_match s p"
  shows "match_projects projects s = None"
proof -
  from assms have "\<forall>p\<in>set projects. \<not> exact_match s p" "\<forall>p\<in>set projects. \<not> prefix_match s p"
    using exact_match_contains prefix_match_contains by blast+
  with assms(2) show ?thesis
    by (simp add: match_projects_def find_None_all)
qed

lemma resolveProjectId_unresolvable:
  assumes "slug = None \<or> slug = Some ''unassigned'' \<or> slug = Some ''terminal''
           \<or> (\<exists>s. slug = Some s
                \<and> (\<forall>p\<in>set (fst (loadProjects rs now st)). \<not> contains_match s p))"
  shows "fst (resolveProjectId rs now st slug) = None"
proof (cases "\<not> truthy slug \<or> slug = Some ''null'' \<or> slug = Some ''terminal''
              \<or> slug = Some ''unassigned''")
  case True
  then show ?thesis by (simp add: resolveProjectId_def)
next
  case False
  with assms obtain s where s: "slug = Some s" "s \<noteq> []"
    "\<forall>p\<in>set (fst (loadProjects rs now st)). \<not> contains_match s p"
    by (auto simp: truthy_def)
  from s(2,3) have "match_projects (fst (loadProjects rs now st)) s = None"
    by (rule match_projects_none)
  with False s(1) show ?thesis
    by (simp add: resolveProjectId_def split_beta)
qed

definition two_items :: "item list" where
  "two_items =
     [\<lparr>bucket = ''Todos'', title = Some ''fix the login bug'', content = ''fix the login bug'',
       priority = Some ''medium'', tags = [],
       evidence = [\<lparr>session_id = Some ''a'', excerpt = ''TODO: fix the login bug'',
                    location = ''strict-marker''\<rparr>]\<rparr>,
      \<lparr>bucket = ''Bugs Open'', title = Some ''fix the login bug'',
       content = ''fix the login bug'', priority = Some ''high'', tags = [],
       evidence = [\<lparr>session_id = Some ''a'', excerpt = ''BUG: fix the login bug'',
                    location = ''strict-marker''\<rparr>]\<rparr>]"

definition empty_cache :: resolver where
  "empty_cache = \<lparr>projectCache = None, cacheTime = 0\<rparr>"

text \<open>
  Claim C1. When the project slug cannot be resolved (it is absent, it is one of the
  sentinels \<open>unassigned\<close> and \<open>terminal\<close>, or no project known to the resolver
  matches it), \<open>insertStaging\<close> writes nothing: the staging collection and the rest of
  the store are as before, and the result is 0 inserted, 0 duplicates, the whole batch
  rejected, with the error marker \<open>project_id unresolved\<close>. This holds for every
  batch, the empty one included.
\<close>

theorem unresolved_project_rejects_batch:
  assumes "slug = None \<or> slug = Some ''unassigned'' \<or> slug = Some ''terminal''
           \<or> (\<exists>s. slug = Some s
                \<and> (\<forall>p\<in>set (fst (loadProjects rs now st)). \<not> contains_match s p))"
  shows "fst (insertStaging md5 rs now st items sessId slug)
           = \<lparr>inserted = 0, duplicates = 0, rejected = length items,
              error = Some ''project_id unresolved''\<rparr>
         \<and> snd (snd (insertStaging md5 rs now st items sessId slug)) = st"
proof (cases "truthy slug")
  case True
  from resolveProjectId_unresolvable[OF assms]
  obtain rs' where "resolveProjectId rs now st slug = (None, rs')"
    by (cases "resolveProjectId rs now st slug") auto
  with True show ?thesis
    by (simp add: insertStaging_def truthy_def)
next
  case False
  then show ?thesis
    by (simp add: insertStaging_def truthy_def)
qed

theorem unresolved_project_rejects_batch_witness:
  "(\<exists>s. Some ''nextbid'' = Some s
        \<and> (\<forall>p\<in>set (fst (loadProjects empty_cache 0 example_store)). \<not> contains_match s p))
   \<and> fst (insertStaging (\<lambda>x. x) empty_cache 0 example_store two_items ''a'' (Some ''nextbid''))
       = \<lparr>inserted = 0, duplicates = 0, rejected = 2, error = Some ''project_id unresolved''\<rparr>
   \<and> dev_ai_smart_extractions
        (snd (snd (insertStaging (\<lambda>x. x) empty_cache 0 example_store two_items ''a''
                     (Some ''nextbid'')))) = []"
proof -
  have h: "\<exists>s. Some ''nextbid'' = Some s
        \<and> (\<forall>p\<in>set (fst (loadProjects empty_cache 0 example_store)). \<not> contains_match s p)"
    by (simp add: loadProjects_def empty_cache_def example_store_def db_select_def
                  contains_match_def truthy_def or_empty_def)
  have l: "length two_items = 2" by (simp add: two_items_def)
  have e: "dev_ai_smart_extractions example_store = []" by (simp add: example_store_def)
  from unresolved_project_rejects_batch
         [of "Some ''nextbid''" empty_cache 0 example_store "\<lambda>x. x" two_items "''a''"] h l e
  show ?thesis by simp
qed

lemma exact_match_eq: "exact_match s = (\<lambda>p. p_slug p = Some s)"
  by (rule ext) (simp add: exact_match_def)

lemma prefix_match_eq:
  "prefix_match s = (\<lambda>p. \<exists>ps. p_slug p = Some ps \<and> prefix (s @ ''-'') ps)"
proof (rule ext)
  fix p
  show "prefix_match s p = (\<exists>ps. p_slug p = Some ps \<and> prefix (s @ ''-'') ps)"
    by (cases "p_slug p")
       (auto simp: prefix_match_def truthy_def or_empty_def startsWith_def)
qed

lemma contains_match_eq:
  assumes "s \<noteq> []"
  shows "contains_match s = (\<lambda>p. \<exists>ps. p_slug p = Some ps \<and> (\<exists>a b. ps = a @ s @ b))"
proof (rule ext)
  fix p
  show "contains_match s p = (\<exists>ps. p_slug p = Some ps \<and> (\<exists>a b. ps = a @ s @ b))"
    using assms
    by (cases "p_slug p")
       (auto simp: contains_match_def truthy_def or_empty_def str_includes_iff)
qed

definition null_store :: store where
  "null_store =
     \<lparr>online = True, dev_ai_sessions = [], dev_ai_clean_transcripts = [],
      dev_ai_smart_extractions = [],
      dev_projects = [\<lparr>p_id = ''p-0'', p_slug = Some ''null'', p_name = ''Null''\<rparr>],
      insert_refused = (\<lambda>_. False)\<rparr>"

text \<open>
  Claim C6, as stated, fails for two inputs that are neither \<open>null\<close> nor a sentinel of
  the claim: the four-letter string \<open>"null"\<close> is refused although a project has exactly
  that slug, and the empty string is refused although every project slug contains it.
\<close>

theorem literal_null_and_empty_slug_unresolved:
  "fst (resolveProjectId empty_cache 0 null_store (Some ''null'')) = None
   \<and> find (exact_match ''null'') (dev_projects null_store)
       = Some \<lparr>p_id = ''p-0'', p_slug = Some ''null'', p_name = ''Null''\<rparr>
   \<and> fst (resolveProjectId empty_cache 0 null_store (Some '''')) = None
   \<and> find (contains_match '''') (dev_projects null_store)
       = Some \<lparr>p_id = ''p-0'', p_slug = Some ''null'', p_name = ''Null''\<rparr>"
  by (simp add: resolveProjectId_def truthy_def null_store_def exact_match_def
                contains_match_def or_empty_def)

text \<open>
  Claim C6, amended. \<open>resolveProjectId\<close> returns null at once, without reading the
  store or touching the cache, when the slug is null, the empty string, or one of the
  strings \<open>"null"\<close>, \<open>"terminal"\<close>, \<open>"unassigned"\<close>. Otherwise it returns the identity
  of the first loaded project whose slug equals the input; failing that, of the first
  whose slug starts with the input followed by \<open>-\<close>; failing that, of the first whose
  slug contains the input; and null when no project matches.
\<close>

theorem resolveProjectId_sentinels_and_order:
  "(slug = None \<or> slug = Some [] \<or> slug = Some ''null'' \<or> slug = Some ''terminal''
      \<or> slug = Some ''unassigned'' \<longrightarrow>
      resolveProjectId rs now st slug = (None, rs))
   \<and> (slug = Some s \<and> s \<noteq> [] \<and> s \<noteq> ''null'' \<and> s \<noteq> ''terminal'' \<and> s \<noteq> ''unassigned'' \<longrightarrow>
        fst (resolveProjectId rs now st slug) =
          (let projects = fst (loadProjects rs now st) in
           case find (\<lambda>p. p_slug p = Some s) projects of
             Some m \<Rightarrow> Some (p_id m)
           | None \<Rightarrow>
               (case find (\<lambda>p. \<exists>ps. p_slug p = Some ps \<and> prefix (s @ ''-'') ps) projects of
                  Some m \<Rightarrow> Some (p_id m)
                | None \<Rightarrow>
                    (case find (\<lambda>p. \<exists>ps. p_slug p = Some ps \<and> (\<exists>a b. ps = a @ s @ b))
                            projects of
                       Some m \<Rightarrow> Some (p_id m)
                     | None \<Rightarrow> None))))"
proof (intro conjI impI)
  assume "slug = None \<or> slug = Some [] \<or> slug = Some ''null'' \<or> slug = Some ''terminal''
      \<or> slug = Some ''unassigned''"
  then show "resolveProjectId rs now st slug = (None, rs)"
    by (auto simp: resolveProjectId_def truthy_def)
next
  assume a: "slug = Some s \<and> s \<noteq> [] \<and> s \<noteq> ''null'' \<and> s \<noteq> ''terminal'' \<and> s \<noteq> ''unassigned''"
  then have ne: "s \<noteq> []" by simp
  from a have "fst (resolveProjectId rs now st slug)
               = match_projects (fst (loadProjects rs now st)) s"
    by (simp add: resolveProjectId_def truthy_def split_beta)
  also have "\<dots> = (let projects = fst (loadProjects rs now st) in
           case find (\<lambda>p. p_slug p = Some s) projects of
             Some m \<Rightarrow> Some (p_id m)
           | None \<Rightarrow>
               (case find (\<lambda>p. \<exists>ps. p_slug p = Some ps \<and> prefix (s @ ''-'') ps) projects of
                  Some m \<Rightarrow> Some (p_id m)
                | None \<Rightarrow>
                    (case find (\<lambda>p. \<exists>ps. p_slug p = Some ps \<and> (\<exists>a b. ps = a @ s @ b))
                            projects of
                       Some m \<Rightarrow> Some (p_id m)
                     | None \<Rightarrow> None)))"
    unfolding match_projects_def Let_def
    by (simp only: exact_match_eq prefix_match_eq contains_match_eq[OF ne])
  finally show "fst (resolveProjectId rs now st slug) =
          (let projects = fst (loadProjects rs now st) in
           case find (\<lambda>p. p_slug p = Some s) projects of
             Some m \<Rightarrow> Some (p_id m)
           | None \<Rightarrow>
               (case find (\<lambda>p. \<exists>ps. p_slug p = Some ps \<and> prefix (s @ ''-'') ps) projects of
                  Some m \<Rightarrow> Some (p_id m)
                | None \<Rightarrow>
                    (case find (\<lambda>p. \<exists>ps. p_slug p = Some ps \<and> (\<exists>a b. ps = a @ s @ b))
                            projects of
                       Some m \<Rightarrow> Some (p_id m)
                     | None \<Rightarrow> None)))" .
qed

theorem resolveProjectId_sentinels_and_order_witness:
  "resolveProjectId empty_cache 0 example_store (Some ''terminal'') = (None, empty_cache)
   \<and> fst (resolveProjectId empty_cache 0 example_store (Some ''ai-jason'')) = Some ''p-1''"
proof -
  have lp: "fst (loadProjects empty_cache 0 example_store)
              = [\<lparr>p_id = ''p-1'', p_slug = Some ''ai-jason-5408'', p_name = ''Jason''\<rparr>]"
    by (simp add: loadProjects_def empty_cache_def example_store_def db_select_def)
  from resolveProjectId_sentinels_and_order
         [of "Some ''terminal''" empty_cache 0 example_store "''terminal''"]
  have c1: "resolveProjectId empty_cache 0 example_store (Some ''terminal'') = (None, empty_cache)"
    by simp
  from resolveProjectId_sentinels_and_order
         [of "Some ''ai-jason''" empty_cache 0 example_store "''ai-jason''"]
  have c2: "fst (resolveProjectId empty_cache 0 example_store (Some ''ai-jason'')) = Some ''p-1''"
    by (simp add: lp)
  from c1 c2 show ?thesis by simp
qed

section \<open>Fingerprint and deduplication\<close>

lemma isDuplicate_after_insert:
  assumes "online st" and "r_hash r = h"
  shows "isDuplicate (st\<lparr>dev_ai_smart_extractions := dev_ai_smart_extractions st @ [r]\<rparr>) h"
proof -
  have "filter (\<lambda>x. r_hash x = h) (dev_ai_smart_extractions st @ [r]) \<noteq> []"
    using assms(2) by simp
  then have "take 1 (filter (\<lambda>x. r_hash x = h) (dev_ai_smart_extractions st @ [r])) \<noteq> []"
    by (cases "filter (\<lambda>x. r_hash x = h) (dev_ai_smart_extractions st @ [r])") auto
  with assms(1) show ?thesis
    by (simp add: isDuplicate_def db_select_def)
qed

lemma stage_pair_same_hash:
  assumes h: "generateHash md5 a = generateHash md5 b"
      and up: "online st"
      and ok: "\<not> insert_refused st (make_row md5 now a sessId projectId projectSlug)"
  shows "stage_items md5 now sessId projectId projectSlug [a, b] (res, st) =
           (if isDuplicate st (generateHash md5 a)
            then (res\<lparr>duplicates := duplicates res + 2\<rparr>, st)
            else (res\<lparr>inserted := inserted res + 1, duplicates := duplicates res + 1\<rparr>,
                  st\<lparr>dev_ai_smart_extractions := dev_ai_smart_extractions st
                       @ [make_row md5 now a sessId projectId projectSlug]\<rparr>))"
proof (cases "isDuplicate st (generateHash md5 a)")
  case True
  with h show ?thesis by simp
next
  case False
  let ?r = "make_row md5 now a sessId projectId projectSlug"
  let ?st' = "st\<lparr>dev_ai_smart_extractions := dev_ai_smart_extractions st @ [?r]\<rparr>"
  have ins: "db_insert st ?r = (True, ?st')"
    using up ok by (simp add: db_insert_def)
  have "r_hash ?r = generateHash md5 b"
    using h by (simp add: make_row_def)
  with up have dup: "isDuplicate ?st' (generateHash md5 b)"
    by (rule isDuplicate_after_insert)
  from False ins dup show ?thesis by simp
qed

text \<open>
  Claim C10. Two items that agree on the title (a missing title counts as empty), on
  the first 200 characters of the content and on the session reference of the first
  evidence entry (a missing one counts as empty) get the same fingerprint, whatever
  their bucket, priority, further content and further evidence. So when both are staged
  in one batch on a working store, the second is counted as a duplicate of the first
  and is not inserted.
\<close>

theorem same_key_fields_same_fingerprint:
  assumes "or_empty (title a) = or_empty (title b)"
      and "take 200 (content a) = take 200 (content b)"
      and "(case evidence a of [] \<Rightarrow> [] | e # _ \<Rightarrow> or_empty (session_id e))
           = (case evidence b of [] \<Rightarrow> [] | e # _ \<Rightarrow> or_empty (session_id e))"
  shows "generateHash md5 a = generateHash md5 b
         \<and> (online st \<and> \<not> insert_refused st (make_row md5 now a sessId projectId projectSlug)
              \<longrightarrow> stage_items md5 now sessId projectId projectSlug [a, b] (res, st) =
                   (if isDuplicate st (generateHash md5 a)
                    then (res\<lparr>duplicates := duplicates res + 2\<rparr>, st)
                    else (res\<lparr>inserted := inserted res + 1,
                              duplicates := duplicates res + 1\<rparr>,
                          st\<lparr>dev_ai_smart_extractions := dev_ai_smart_extractions st
                               @ [make_row md5 now a sessId projectId projectSlug]\<rparr>)))"
proof -
  from assms have "hash_input a = hash_input b"
    by (simp add: hash_input_def)
  then have h: "generateHash md5 a = generateHash md5 b"
    by (simp add: generateHash_def)
  with stage_pair_same_hash[OF h] show ?thesis by blast
qed

definition todo_and_bug :: "item \<times> item" where
  "todo_and_bug = (two_items ! 0, two_items ! 1)"

theorem same_key_fields_same_fingerprint_witness:
  "bucket (fst todo_and_bug) \<noteq> bucket (snd todo_and_bug)
   \<and> priority (fst todo_and_bug) \<noteq> priority (snd todo_and_bug)
   \<and> or_empty (title (fst todo_and_bug)) = or_empty (title (snd todo_and_bug))
   \<and> take 200 (content (fst todo_and_bug)) = take 200 (content (snd todo_and_bug))
   \<and> online example_store
   \<and> generateHash (\<lambda>x. x) (fst todo_and_bug) = generateHash (\<lambda>x. x) (snd todo_and_bug)
   \<and> length (dev_ai_smart_extractions (snd (stage_items (\<lambda>x. x) 0 ''a'' ''p-1''
         (Some ''ai-jason-5408'') [fst todo_and_bug, snd todo_and_bug]
         (\<lparr>inserted = 0, duplicates = 0, rejected = 0, error = None\<rparr>, example_store)))) = 1"
proof -
  let ?a = "fst todo_and_bug" and ?b = "snd todo_and_bug"
  let ?res = "\<lparr>inserted = 0, duplicates = 0, rejected = 0, error = None\<rparr>"
  have d: "bucket ?a \<noteq> bucket ?b" "priority ?a \<noteq> priority ?b"
    by (simp_all add: todo_and_bug_def two_items_def)
  have h1: "or_empty (title ?a) = or_empty (title ?b)"
    by (simp add: todo_and_bug_def two_items_def)
  have h2: "take 200 (content ?a) = take 200 (content ?b)"
    by (simp add: todo_and_bug_def two_items_def)
  have h3: "(case evidence ?a of [] \<Rightarrow> [] | e # _ \<Rightarrow> or_empty (session_id e))
           = (case evidence ?b of [] \<Rightarrow> [] | e # _ \<Rightarrow> or_empty (session_id e))"
    by (simp add: todo_and_bug_def two_items_def)
  have up: "online example_store" "\<not> insert_refused example_store r" for r
    by (simp_all add: example_store_def)
  have nd: "\<not> isDuplicate example_store h" for h
    by (simp add: isDuplicate_def example_store_def db_select_def)
  from same_key_fields_same_fingerprint
         [OF h1 h2 h3, of "\<lambda>x. x" example_store 0 "''a''" "''p-1''" "Some ''ai-jason-5408''" ?res]
       up nd
  have "generateHash (\<lambda>x. x) ?a = generateHash (\<lambda>x. x) ?b"
    and "snd (stage_items (\<lambda>x. x) 0 ''a'' ''p-1'' (Some ''ai-jason-5408'') [?a, ?b]
               (?res, example_store))
         = example_store\<lparr>dev_ai_smart_extractions := dev_ai_smart_extractions example_store
             @ [make_row (\<lambda>x. x) 0 ?a ''a'' ''p-1'' (Some ''ai-jason-5408'')]\<rparr>"
    by simp_all
  then show ?thesis
    using d h1 h2 up(1) by (simp add: example_store_def)
qed

section \<open>Extractor: the loops end and every item is well formed\<close>

text \<open>The least number of characters a match of a pattern consumes.\<close>

fun min_len :: "atom list \<Rightarrow> nat" where
  "min_len [] = 0"
| "min_len (Rep cap c lo hi # as) = lo + min_len as"
| "min_len (a # as) = min_len as"

lemma min_len_append: "min_len (xs @ ys) = min_len xs + min_len ys"
  by (induction xs rule: min_len.induct) simp_all

lemma min_len_lit: "min_len (lit s) = length s"
  by (induction s) (simp_all add: lit_def)

lemma run_length_le: "run_length p hi rest \<le> length rest"
proof -
  have "length (takeWhile p rest) \<le> length rest" by (rule length_takeWhile_le)
  then show ?thesis by (cases hi) (simp_all add: run_length_def Let_def)
qed

lemma matchA_len_bounds:
  "matchA as ic ml prev rest = Some (len, caps) \<Longrightarrow> min_len as \<le> len \<and> len \<le> length rest"
proof (induction as arbitrary: prev rest len caps)
  case Nil
  then show ?case by simp
next
  case (Cons a as)
  show ?case
  proof (cases a)
    case Bol
    with Cons.prems have "matchA as ic ml prev rest = Some (len, caps)"
      by (simp split: if_splits)
    from Cons.IH[OF this] Bol show ?thesis by simp
  next
    case Eol
    with Cons.prems have "matchA as ic ml prev rest = Some (len, caps)"
      by (simp split: if_splits)
    from Cons.IH[OF this] Eol show ?thesis by simp
  next
    case (Rep cap c lo hi)
    let ?n = "run_length (cls_ok ic c) hi rest"
    let ?f = "\<lambda>k. case matchA as ic ml (prev_after prev (take k rest)) (drop k rest) of
                    None \<Rightarrow> None
                  | Some (len, caps) \<Rightarrow>
                      Some (k + len, (if cap then [take k rest] else []) @ caps)"
    from Cons.prems Rep have n: "lo \<le> ?n" and rt: "rep_try ?f lo (?n - lo) = Some (len, caps)"
      by (auto simp: Let_def split: if_splits)
    from rep_try_SomeD[OF rt] obtain k where k: "lo \<le> k" "k \<le> lo + (?n - lo)"
      and fk: "?f k = Some (len, caps)" by blast
    from fk obtain len' caps' where
      m: "matchA as ic ml (prev_after prev (take k rest)) (drop k rest) = Some (len', caps')"
      and len: "len = k + len'"
      by (auto split: option.splits)
    from Cons.IH[OF m] have b: "min_len as \<le> len'" "len' \<le> length (drop k rest)" by simp_all
    from k(2) n have "k \<le> ?n" by simp
    with run_length_le[of "cls_ok ic c" hi rest] have "k \<le> length rest" by simp
    with b len k(1) Rep show ?thesis by simp
  qed
qed

lemma exec_loop_total:
  assumes "0 < min_len (atoms re)"
  shows "\<exists>ms. exec_loop re prev rest skip = Some ms"
proof (induction rest arbitrary: prev skip)
  case Nil
  have "match_at re prev [] = None"
  proof (cases "match_at re prev []")
    case (Some r)
    then have "matchA (atoms re) (ignoreCase re) (multiline re) prev [] = Some (fst r, snd r)"
      by (simp add: match_at_def)
    from matchA_len_bounds[OF this] assms show ?thesis by simp
  qed simp
  then show ?case by simp
next
  case (Cons c cs)
  show ?case
  proof (cases "0 < skip")
    case True
    with Cons.IH[of "Some c" "skip - 1"] show ?thesis by simp
  next
    case False
    show ?thesis
    proof (cases "match_at re prev (c # cs)")
      case None
      with False Cons.IH[of "Some c" 0] show ?thesis by simp
    next
      case (Some r)
      obtain len caps where r: "r = (len, caps)" by (cases r)
      with Some have "matchA (atoms re) (ignoreCase re) (multiline re) prev (c # cs)
                        = Some (len, caps)"
        by (simp add: match_at_def)
      from matchA_len_bounds[OF this] assms have "len \<noteq> 0" by simp
      moreover from Cons.IH[of "Some c" "len - 1"] obtain ms where
        "exec_loop re (Some c) cs (len - 1) = Some ms" by blast
      ultimately show ?thesis using False Some r by simp
    qed
  qed
qed

definition rule_shaped :: "item \<Rightarrow> bool" where
  "rule_shaped i = (bucket i \<in> {''Todos'', ''Bugs Open'', ''Decisions''}
                    \<and> 10 \<le> length (content i))"

lemma rule_item_shaped:
  "b \<in> {''Todos'', ''Bugs Open'', ''Decisions''} \<Longrightarrow> 10 \<le> length text
   \<Longrightarrow> rule_shaped (rule_item b prio session text whole)"
  by (simp add: rule_shaped_def rule_item_def)

lemma add_match_shaped:
  assumes "list_all rule_shaped (fst acc)"
      and "b \<in> {''Todos'', ''Bugs Open'', ''Decisions''}"
  shows "list_all rule_shaped (fst (add_match (rule_item b prio session) acc m))"
  using assms rule_item_shaped[of b _ prio session]
  by (cases "snd m") (auto simp: add_match_def Let_def)

lemma foldl_add_match_shaped:
  assumes "list_all rule_shaped (fst acc)"
      and "b \<in> {''Todos'', ''Bugs Open'', ''Decisions''}"
  shows "list_all rule_shaped (fst (foldl (add_match (rule_item b prio session)) acc ms))"
  using assms(1)
proof (induction ms arbitrary: acc)
  case Nil
  then show ?case by simp
next
  case (Cons m ms)
  from add_match_shaped[OF Cons.prems assms(2)]
  have "list_all rule_shaped (fst (add_match (rule_item b prio session) acc m))" .
  from Cons.IH[OF this] show ?case by simp
qed

lemma run_patterns_shaped:
  assumes "\<forall>re\<in>set res. 0 < min_len (atoms re)"
      and "list_all rule_shaped (fst acc)"
      and "b \<in> {''Todos'', ''Bugs Open'', ''Decisions''}"
  shows "\<exists>acc'. run_patterns (rule_item b prio session) c acc res = Some acc'
                \<and> list_all rule_shaped (fst acc')"
  using assms(1,2)
proof (induction res arbitrary: acc)
  case Nil
  then show ?case by simp
next
  case (Cons re res)
  from Cons.prems(1) have "0 < min_len (atoms re)" by simp
  from exec_loop_total[OF this] obtain ms where ms: "exec_all re c = Some ms"
    unfolding exec_all_def by blast
  from foldl_add_match_shaped[OF Cons.prems(2) assms(3)]
  have "list_all rule_shaped (fst (foldl (add_match (rule_item b prio session)) acc ms))" .
  moreover from Cons.prems(1) have "\<forall>re\<in>set res. 0 < min_len (atoms re)" by simp
  ultimately obtain acc' where
    "run_patterns (rule_item b prio session) c
       (foldl (add_match (rule_item b prio session)) acc ms) res = Some acc'"
    "list_all rule_shaped (fst acc')"
    using Cons.IH by blast
  with ms show ?case by simp
qed

lemma min_len_marker_re: "0 < min_len (atoms (marker_re m))"
  by (simp add: marker_re_def min_len_append)

lemma PATTERNS_consume:
  "\<forall>re\<in>set PATTERNS_todo. 0 < min_len (atoms re)"
  "\<forall>re\<in>set PATTERNS_bug. 0 < min_len (atoms re)"
  "\<forall>re\<in>set PATTERNS_decision. 0 < min_len (atoms re)"
  by (simp_all add: PATTERNS_todo_def PATTERNS_bug_def PATTERNS_decision_def
                    min_len_marker_re checkbox_re_def)

lemma extractWithRules_total_shaped:
  "\<exists>items. extractWithRules c session = Some items \<and> list_all rule_shaped items"
proof -
  have "\<exists>acc'. run_patterns (rule_item ''Todos'' (Some ''medium'') session) c ([], {})
                  PATTERNS_todo = Some acc' \<and> list_all rule_shaped (fst acc')"
    by (rule run_patterns_shaped[OF PATTERNS_consume(1)]) simp_all
  then obtain acc1 where a1:
    "run_patterns (rule_item ''Todos'' (Some ''medium'') session) c ([], {}) PATTERNS_todo
       = Some acc1" "list_all rule_shaped (fst acc1)"
    by blast
  have "\<exists>acc'. run_patterns (rule_item ''Bugs Open'' (Some ''high'') session) c acc1
                  PATTERNS_bug = Some acc' \<and> list_all rule_shaped (fst acc')"
    by (rule run_patterns_shaped[OF PATTERNS_consume(2) a1(2)]) simp
  then obtain acc2 where a2:
    "run_patterns (rule_item ''Bugs Open'' (Some ''high'') session) c acc1 PATTERNS_bug
       = Some acc2" "list_all rule_shaped (fst acc2)"
    by blast
  have "\<exists>acc'. run_patterns (rule_item ''Decisions'' None session) c acc2
                  PATTERNS_decision = Some acc' \<and> list_all rule_shaped (fst acc')"
    by (rule run_patterns_shaped[OF PATTERNS_consume(3) a2(2)]) simp
  then obtain acc3 where a3:
    "run_patterns (rule_item ''Decisions'' None session) c acc2 PATTERNS_decision
       = Some acc3" "list_all rule_shaped (fst acc3)"
    by blast
  from a1 a2 a3 show ?thesis by (simp add: extractWithRules_def)
qed

section \<open>Marker extraction\<close>



lemma extract_short_example: "extractWithRules ''TODO: fix it'' s = Some []"
  by code_simp


section \<open>Work log\<close>












section \<open>Validator: the title rule\<close>


















section \<open>Marker lines with a short text\<close>





lemma matchA_skip_no_space:
  assumes "c = [] \<or> \<not> is_space (hd c)"
  shows "matchA (Rep False White 0 None # as) ic ml prev c = matchA as ic ml prev c"
proof -
  from assms have "run_length (cls_ok ic White) None c = 0"
    by (cases c) (auto simp: run_length_def cls_ok_White)
  then show ?thesis
    by (simp add: Let_def prev_after_def split: option.splits)
qed

lemma tail_capture:
  assumes m: "matchA [Rep False White 0 None, Rep True Dot 10 (Some 200), Eol] ic True prev r
                = Some (len, caps)"
      and nl: "\<forall>x\<in>set r. \<not> is_line_terminator x"
  shows "\<exists>j. j \<le> length (takeWhile is_space r) \<and> caps = [drop j r]"
proof -
  let ?n = "run_length (cls_ok ic White) None r"
  let ?f = "\<lambda>k. case matchA [Rep True Dot 10 (Some 200), Eol] ic True
                        (prev_after prev (take k r)) (drop k r) of
                  None \<Rightarrow> None
                | Some (len, caps) \<Rightarrow>
                    Some (k + len, (if False then [take k r] else []) @ caps)"
  from m have rt: "rep_try ?f 0 (?n - 0) = Some (len, caps)"
    by (auto simp: Let_def split: if_splits)
  from rep_try_SomeD[OF rt] obtain j where j: "j \<le> ?n" and fj: "?f j = Some (len, caps)"
    by auto
  from j have jw: "j \<le> length (takeWhile is_space r)"
    by (simp add: run_length_def cls_ok_White)
  let ?r = "drop j r"
  from fj obtain len1 where
    m1: "matchA [Rep True Dot 10 (Some 200), Eol] ic True (prev_after prev (take j r)) ?r
           = Some (len1, caps)"
    by (auto split: option.splits)
  let ?n2 = "run_length (cls_ok ic Dot) (Some 200) ?r"
  let ?g = "\<lambda>k. case matchA [Eol] ic True
                        (prev_after (prev_after prev (take j r)) (take k ?r)) (drop k ?r) of
                  None \<Rightarrow> None
                | Some (len, caps) \<Rightarrow>
                    Some (k + len, (if True then [take k ?r] else []) @ caps)"
  from m1 have rt2: "rep_try ?g 10 (?n2 - 10) = Some (len1, caps)"
    by (auto simp: Let_def split: if_splits)
  from rep_try_SomeD[OF rt2] obtain k where gk: "?g k = Some (len1, caps)" by auto
  then have e: "at_eol True (drop k ?r)" and caps: "caps = [take k ?r]"
    by (auto split: option.splits if_splits)
  have "drop k ?r = []"
  proof (cases "drop k ?r")
    case (Cons z zs)
    then have "z \<in> set r" by (metis in_set_dropD list.set_intros(1))
    with nl e Cons show ?thesis by (simp add: at_eol_def)
  qed simp
  then have "take k ?r = ?r" by simp
  with caps jw show ?thesis by auto
qed






































lemma marker_capture_crosses_line_break:
  "extractWithRules ''TODO:\<newline>fix the login bug'' s =
     Some [rule_item ''Todos'' (Some ''medium'') s ''fix the login bug''
             ''TODO:\<newline>fix the login bug'']"
  by code_simp



section \<open>Transcript loader, session state marker and run orchestrator\<close>

text \<open>
  \<open>loadTranscript\<close>: the clean text of a session, \<open>null\<close> when the record is
  missing, not unique or empty.
\<close>

definition loadTranscript :: "store \<Rightarrow> string \<Rightarrow> transcript option" where
  "loadTranscript st sessId =
     (case db_single (db_select (online st) (dev_ai_clean_transcripts st)
                        (\<lambda>t. ct_session_id t = sessId) None None) of
        Failed \<Rightarrow> None
      | Data cleanTranscript \<Rightarrow>
          if \<not> truthy (clean_text cleanTranscript) then None
          else Some \<lparr>t_content = the (clean_text cleanTranscript),
                     t_slug = (case db_single (db_select (online st) (dev_ai_sessions st)
                                                  (\<lambda>s. s_id s = sessId) None None) of
                                 Failed \<Rightarrow> None
                               | Data s \<Rightarrow> project_slug s)\<rparr>)"

text \<open>
  \<open>markExtracted\<close>: the status of the session becomes \<open>extracted\<close>; the time stamp
  and the metadata it also writes are columns that nothing in the pipeline reads back.
\<close>

definition markExtracted :: "store \<Rightarrow> string \<Rightarrow> bool \<times> store" where
  "markExtracted st sessId =
     (if \<not> online st then (False, st)
      else (True, st\<lparr>dev_ai_sessions :=
                        map (\<lambda>s. if s_id s = sessId then s\<lparr>status := ''extracted''\<rparr> else s)
                            (dev_ai_sessions st)\<rparr>))"

record stats =
  sessions_scanned :: nat
  sessions_processed :: nat
  todos :: nat
  bugs :: nat
  worklogs :: nat
  decisions :: nat
  n_duplicates :: nat
  n_errors :: nat

definition ALLOWED_SLUGS :: "string list" where
  "ALLOWED_SLUGS = [''ai-chad'', ''ai-jen'', ''ai-susan'', ''ai-clair'', ''ai-jason'',
                    ''dev-studio'', ''kodiack-dashboard'', ''kodiack-studio'', ''nextbid'',
                    ''premier-group'']"

text \<open>\<open>s.split(',')\<close>\<close>

fun split_comma :: "string \<Rightarrow> string list" where
  "split_comma [] = [[]]"
| "split_comma (c # cs) =
     (if c = CHR '','' then [] # split_comma cs
      else (case split_comma cs of
              [] \<Rightarrow> [[c]]
            | x # xs \<Rightarrow> (c # x) # xs))"

definition count_item :: "item \<Rightarrow> stats \<Rightarrow> stats" where
  "count_item i s =
     (if bucket i = ''Todos'' then s\<lparr>todos := todos s + 1\<rparr>
      else if bucket i = ''Bugs Open'' \<or> bucket i = ''Bugs Fixed'' then s\<lparr>bugs := bugs s + 1\<rparr>
      else if bucket i = ''Work Log'' then s\<lparr>worklogs := worklogs s + 1\<rparr>
      else if bucket i = ''Decisions'' then s\<lparr>decisions := decisions s + 1\<rparr>
      else s)"

text \<open>
  The loop over the selected sessions. \<open>continue\<close> is the recursive call with the state
  unchanged; the result is \<open>None\<close> only if an extraction never ends. The store calls of
  the model answer with values, so the \<open>catch\<close> branch of the loop is not entered.
\<close>

fun process_sessions :: "(string \<Rightarrow> string) \<Rightarrow> bool \<Rightarrow> int \<Rightarrow> session list
                          \<Rightarrow> stats \<times> resolver \<times> store \<Rightarrow> (stats \<times> resolver \<times> store) option" where
  "process_sessions md5 dryRun now [] acc = Some acc"
| "process_sessions md5 dryRun now (session # rest) (sts, rs, st) =
     (case loadTranscript st (s_id session) of
        None \<Rightarrow> process_sessions md5 dryRun now rest (sts, rs, st)
      | Some tr \<Rightarrow>
          (case extractItems (Some tr) session of
             None \<Rightarrow> None
           | Some items \<Rightarrow>
               let valid_items = fst (validateItems items) in
               if length valid_items = 0
               then process_sessions md5 dryRun now rest (sts, rs, st)
               else
                 let sts1 = fold count_item valid_items sts in
                 if dryRun
                 then process_sessions md5 dryRun now rest
                        (sts1\<lparr>sessions_processed := sessions_processed sts1 + 1\<rparr>, rs, st)
                 else
                   let (res, rs', st') =
                         insertStaging md5 rs now st valid_items (s_id session)
                           (project_slug session);
                       sts2 = sts1\<lparr>n_duplicates := n_duplicates sts1 + duplicates res\<rparr>;
                       (marked, st'') = markExtracted st' (s_id session)
                   in process_sessions md5 dryRun now rest
                        (sts2\<lparr>sessions_processed := sessions_processed sts2 + 1\<rparr>, rs', st'')))"

record run_options =
  o_session :: "string option"
  o_since :: string
  o_slugs :: string
  o_dryRun :: bool
  o_limit :: nat

datatype outcome = Exit1 | Finished stats resolver store

text \<open>
  The action of the \<open>extract\<close> command, from the parsing of the slugs to the end of the
  loop, over either copy of the selector (\<open>sel\<close>). \<open>process.exit(1)\<close> is \<open>Exit1\<close>.
\<close>

definition run :: "(store \<Rightarrow> int \<Rightarrow> options \<Rightarrow> session list) \<Rightarrow> (string \<Rightarrow> string) \<Rightarrow> int
                   \<Rightarrow> resolver \<Rightarrow> store \<Rightarrow> run_options \<Rightarrow> outcome option" where
  "run sel md5 now rs st opts =
     (let slug_list = filter (\<lambda>s. s \<noteq> []) (map trim (split_comma (o_slugs opts)));
          validSlugs = filter (\<lambda>s. list_ex (\<lambda>allowed. startsWith s allowed) ALLOWED_SLUGS)
                         slug_list
      in if length validSlugs = 0 then Some Exit1
         else
           let sessions =
                 (if truthy (o_session opts)
                  then sel st now \<lparr>sessionId = o_session opts, since = ''30m'', slugs = [],
                                   limit = 10, status_opt = None\<rparr>
                  else sel st now \<lparr>sessionId = None, since = o_since opts,
                                   slugs = validSlugs, limit = o_limit opts,
                                   status_opt = Some ''cleaned''\<rparr>);
               sts = \<lparr>sessions_scanned = length sessions, sessions_processed = 0, todos = 0,
                       bugs = 0, worklogs = 0, decisions = 0, n_duplicates = 0,
                       n_errors = 0\<rparr>
           in case process_sessions md5 (o_dryRun opts) now sessions (sts, rs, st) of
                None \<Rightarrow> None
              | Some (sts', rs', st') \<Rightarrow> Some (Finished sts' rs' st'))"

section \<open>A run stages rows for the selected sessions only\<close>

text \<open>The staging collection grows by rows that carry one of the given session identities.\<close>

definition extends :: "string set \<Rightarrow> store \<Rightarrow> store \<Rightarrow> bool" where
  "extends ids st st' =
     (\<exists>rows. dev_ai_smart_extractions st' = dev_ai_smart_extractions st @ rows
             \<and> list_all (\<lambda>r. r_session_id r \<in> ids) rows)"

lemma extends_refl: "extends ids st st"
  by (simp add: extends_def)

lemma extends_trans:
  assumes "extends A st st'" and "extends B st' st''"
  shows "extends (A \<union> B) st st''"
proof -
  from assms obtain r1 r2 where
    "dev_ai_smart_extractions st' = dev_ai_smart_extractions st @ r1"
    "list_all (\<lambda>r. r_session_id r \<in> A) r1"
    "dev_ai_smart_extractions st'' = dev_ai_smart_extractions st' @ r2"
    "list_all (\<lambda>r. r_session_id r \<in> B) r2"
    unfolding extends_def by blast
  then have "dev_ai_smart_extractions st'' = dev_ai_smart_extractions st @ (r1 @ r2)"
    "list_all (\<lambda>r. r_session_id r \<in> A \<union> B) (r1 @ r2)"
    by (auto simp: list_all_iff)
  then show ?thesis unfolding extends_def by blast
qed

lemma extends_same_staging:
  "dev_ai_smart_extractions st' = dev_ai_smart_extractions st \<Longrightarrow> extends ids st st'"
  by (simp add: extends_def)

lemma db_insert_extends:
  "extends {sessId} st (snd (db_insert st (make_row md5 now i sessId projectId projectSlug)))"
  by (simp add: db_insert_def extends_def make_row_def)

lemma stage_items_extends:
  "extends {sessId} st (snd (stage_items md5 now sessId projectId projectSlug items (res, st)))"
proof (induction items arbitrary: res st)
  case Nil
  then show ?case by (simp add: extends_refl)
next
  case (Cons i items)
  show ?case
  proof (cases "isDuplicate st (generateHash md5 i)")
    case True
    with Cons.IH show ?thesis by simp
  next
    case False
    let ?ins = "db_insert st (make_row md5 now i sessId projectId projectSlug)"
    obtain ok st1 where ins: "?ins = (ok, st1)" by (cases ?ins)
    with db_insert_extends[of sessId st md5 now i projectId projectSlug]
    have e1: "extends {sessId} st st1" by simp
    have "extends ({sessId} \<union> {sessId}) st
            (snd (stage_items md5 now sessId projectId projectSlug items (r, st1)))" for r
      by (rule extends_trans[OF e1 Cons.IH])
    with False ins show ?thesis by (cases ok) simp_all
  qed
qed

lemma insertStaging_extends:
  "extends {sessId} st (snd (snd (insertStaging md5 rs now st items sessId projectSlug)))"
proof -
  have "extends {sessId} st
          (snd (stage_items md5 now sessId pid projectSlug items (r, st)))" for pid r
    by (rule stage_items_extends)
  then show ?thesis
    by (auto simp: insertStaging_def Let_def split_beta extends_refl)
qed

lemma markExtracted_staging:
  "dev_ai_smart_extractions (snd (markExtracted st sessId)) = dev_ai_smart_extractions st"
  by (simp add: markExtracted_def)

lemma extends_mono: "extends A st st' \<Longrightarrow> A \<subseteq> B \<Longrightarrow> extends B st st'"
  by (auto simp: extends_def list_all_iff)

lemma extractItems_total: "\<exists>items. extractItems tr session = Some items"
proof (cases tr)
  case None
  then show ?thesis by (simp add: extractItems_def)
next
  case (Some t)
  with extractWithRules_total_shaped[of "t_content t" session] show ?thesis
    by (auto simp: extractItems_def)
qed

lemma process_sessions_extends:
  "\<exists>sts' rs' st'. process_sessions md5 dryRun now sessions (sts, rs, st) = Some (sts', rs', st')
                   \<and> extends (s_id ` set sessions) st st'"
proof (induction sessions arbitrary: sts rs st)
  case Nil
  then show ?case by (simp add: extends_refl)
next
  case (Cons session rest)
  have step: "\<exists>sts' rs' st'. process_sessions md5 dryRun now rest (a, b, st1)
                                 = Some (sts', rs', st')
                \<and> extends (s_id ` set (session # rest)) st st'"
    if "extends {s_id session} st st1" for a b st1
  proof -
    from Cons.IH[of a b st1] obtain sts' rs' st' where
      p: "process_sessions md5 dryRun now rest (a, b, st1) = Some (sts', rs', st')"
      and e: "extends (s_id ` set rest) st1 st'" by blast
    from extends_trans[OF that e] have "extends (s_id ` set (session # rest)) st st'"
      by (rule extends_mono) auto
    with p show ?thesis by blast
  qed
  show ?case
  proof (cases "loadTranscript st (s_id session)")
    case None
    with step[OF extends_refl, of sts rs] show ?thesis by simp
  next
    case (Some tr)
    from extractItems_total[of "Some tr" session] obtain items where
      items: "extractItems (Some tr) session = Some items" by blast
    let ?valid = "fst (validateItems items)"
    show ?thesis
    proof (cases "length ?valid = 0")
      case True
      with Some items step[OF extends_refl, of sts rs] show ?thesis by simp
    next
      case False
      show ?thesis
      proof (cases dryRun)
        case True
        with Some items False step[OF extends_refl] show ?thesis by (simp add: Let_def)
      next
        case dry: False
        let ?ins = "insertStaging md5 rs now st ?valid (s_id session) (project_slug session)"
        obtain res rs1 st1 where ins: "?ins = (res, rs1, st1)" by (cases ?ins) auto
        obtain marked st2 where mk: "markExtracted st1 (s_id session) = (marked, st2)"
          by (cases "markExtracted st1 (s_id session)")
        from insertStaging_extends[of "s_id session" st md5 rs now ?valid "project_slug session"]
             ins
        have "extends {s_id session} st st1" by simp
        moreover from markExtracted_staging[of st1 "s_id session"] mk
        have "dev_ai_smart_extractions st2 = dev_ai_smart_extractions st1" by simp
        ultimately have "extends {s_id session} st st2"
          by (simp add: extends_def)
        from step[OF this] Some items False dry ins mk show ?thesis
          by (simp add: Let_def)
      qed
    qed
  qed
qed

lemma extends_other_session:
  assumes "extends ids st st'" and "i \<notin> ids"
  shows "filter (\<lambda>r. r_session_id r = i) (dev_ai_smart_extractions st')
           = filter (\<lambda>r. r_session_id r = i) (dev_ai_smart_extractions st)"
proof -
  from assms(1) obtain rows where
    r: "dev_ai_smart_extractions st' = dev_ai_smart_extractions st @ rows"
       "list_all (\<lambda>r. r_session_id r \<in> ids) rows"
    unfolding extends_def by blast
  from r(2) assms(2) have "filter (\<lambda>r. r_session_id r = i) rows = []"
    by (auto simp: list_all_iff filter_empty_conv)
  with r(1) show ?thesis by simp
qed

lemma window_selection_skips_extracted_id:
  assumes w: "\<not> truthy (sessionId wopts)"
      and sel: "sel = selectSessions \<or> sel = selectSessions_checked"
      and x: "x \<in> set (dev_ai_sessions st)" "status x = ''extracted''"
      and uniq: "distinct (map s_id (dev_ai_sessions st))"
  shows "s_id x \<notin> s_id ` set (sel st now wopts)"
proof
  assume "s_id x \<in> s_id ` set (sel st now wopts)"
  then obtain s where s: "s \<in> set (sel st now wopts)" "s_id s = s_id x" by auto
  from sel s(1) selectSessions_window_member[OF w] selectSessions_checked_window_member[OF w]
  have m: "s \<in> set (dev_ai_sessions st)" "status s \<noteq> ''extracted''" by auto
  from uniq have "inj_on s_id (set (dev_ai_sessions st))" by (simp add: distinct_map)
  with m(1) x(1) s(2) have "s = x" by (auto dest: inj_onD)
  with m(2) x(2) show False by simp
qed

lemma window_run_leaves_extracted_session:
  assumes w: "\<not> truthy (o_session opts)"
      and sel: "sel = selectSessions \<or> sel = selectSessions_checked"
      and x: "x \<in> set (dev_ai_sessions st)" "status x = ''extracted''"
      and uniq: "distinct (map s_id (dev_ai_sessions st))"
  shows "run sel md5 now rs st opts = Some Exit1
         \<or> (\<exists>sts' rs' st'. run sel md5 now rs st opts = Some (Finished sts' rs' st')
              \<and> filter (\<lambda>r. r_session_id r = s_id x) (dev_ai_smart_extractions st')
                  = filter (\<lambda>r. r_session_id r = s_id x) (dev_ai_smart_extractions st))"
proof -
  let ?slug_list = "filter (\<lambda>s. s \<noteq> []) (map trim (split_comma (o_slugs opts)))"
  let ?valid = "filter (\<lambda>s. list_ex (\<lambda>allowed. startsWith s allowed) ALLOWED_SLUGS) ?slug_list"
  show ?thesis
  proof (cases "length ?valid = 0")
    case True
    then have "run sel md5 now rs st opts = Some Exit1"
      unfolding run_def Let_def by (simp only: simp_thms if_True)
    then show ?thesis by blast
  next
    case False
    let ?wopts = "\<lparr>sessionId = None, since = o_since opts, slugs = ?valid,
                    limit = o_limit opts, status_opt = Some ''cleaned''\<rparr>"
    let ?sessions = "sel st now ?wopts"
    let ?sts = "\<lparr>sessions_scanned = length ?sessions, sessions_processed = 0, todos = 0,
                  bugs = 0, worklogs = 0, decisions = 0, n_duplicates = 0, n_errors = 0\<rparr>"
    have "\<not> truthy (sessionId ?wopts)" by (simp add: truthy_def)
    from window_selection_skips_extracted_id[OF this sel x uniq]
    have nx: "s_id x \<notin> s_id ` set ?sessions" .
    from process_sessions_extends[of md5 "o_dryRun opts" now ?sessions ?sts rs st]
    obtain sts' rs' st' where
      p: "process_sessions md5 (o_dryRun opts) now ?sessions (?sts, rs, st)
            = Some (sts', rs', st')"
      and e: "extends (s_id ` set ?sessions) st st'" by blast
    from False w have "run sel md5 now rs st opts =
            (case process_sessions md5 (o_dryRun opts) now ?sessions (?sts, rs, st) of
               None \<Rightarrow> None
             | Some (sts', rs', st') \<Rightarrow> Some (Finished sts' rs' st'))"
      unfolding run_def Let_def by (simp only: simp_thms if_False)
    with p have "run sel md5 now rs st opts = Some (Finished sts' rs' st')"
      by (simp only: option.case prod.case)
    with extends_other_session[OF e nx] show ?thesis by blast
  qed
qed

text \<open>A stand-in for the digest in examples: it keeps different inputs apart.\<close>

definition plain_digest :: "string \<Rightarrow> string" where
  "plain_digest s = s"

definition by_id_run :: run_options where
  "by_id_run = \<lparr>o_session = Some ''x'', o_since = ''3h'', o_slugs = ''ai-jason'',
                 o_dryRun = False, o_limit = 10\<rparr>"

definition window_run :: run_options where
  "window_run = \<lparr>o_session = None, o_since = ''30m'', o_slugs = ''ai-jason, nextbid'',
                  o_dryRun = False, o_limit = 10\<rparr>"

definition staged_ids :: "outcome option \<Rightarrow> string list" where
  "staged_ids out =
     (case out of
        Some (Finished _ _ st') \<Rightarrow> map r_session_id (dev_ai_smart_extractions st')
      | _ \<Rightarrow> [])"

lemma by_id_run_staged:
  "staged_ids (run selectSessions plain_digest 3000 empty_cache example_store by_id_run)
     = [''x'', ''x'']"
  by code_simp

lemma window_run_staged:
  "staged_ids (run selectSessions plain_digest 3000 empty_cache example_store window_run)
     = [''a'', ''a'', ''b'', ''b'']"
  by code_simp

text \<open>
  Claim C2, as stated, fails for selection by explicit session identity: the selector
  hands back the session with the requested identity although its status is
  \<open>extracted\<close>, and the run stages its items again (here into an empty staging
  collection: two rows for session \<open>x\<close>).
\<close>

theorem by_identity_returns_extracted_session:
  "selectSessions example_store 3000 (by_id_options ''x'') = [session_x]
   \<and> status session_x = ''extracted''
   \<and> dev_ai_smart_extractions example_store = []
   \<and> staged_ids (run selectSessions plain_digest 3000 empty_cache example_store by_id_run)
       = [''x'', ''x'']"
proof -
  have "status session_x = ''extracted''" by (simp add: session_x_def)
  moreover have "dev_ai_smart_extractions example_store = []"
    by (simp add: example_store_def)
  ultimately show ?thesis
    using example_by_id_x by_id_run_staged by blast
qed

text \<open>
  Claim C2, amended. In window mode neither copy of the selector ever returns a session
  whose status is \<open>extracted\<close>; so a window-mode run, which ends on every input, adds no
  staged row for such a session (session identities being unique in the store).
  Selection by explicit identity has no status gate: it returns the one session with
  that identity, whatever its status.
\<close>

theorem extracted_sessions_gated_in_window_mode:
  "(\<not> truthy (sessionId opts) \<longrightarrow>
      (\<forall>s\<in>set (selectSessions st now opts). status s \<noteq> ''extracted'')
      \<and> (\<forall>s\<in>set (selectSessions_checked st now opts). status s \<noteq> ''extracted''))
   \<and> (\<not> truthy (o_session ropts) \<and> (sel = selectSessions \<or> sel = selectSessions_checked)
        \<and> x \<in> set (dev_ai_sessions st) \<and> status x = ''extracted''
        \<and> distinct (map s_id (dev_ai_sessions st)) \<longrightarrow>
      run sel md5 now rs st ropts = Some Exit1
      \<or> (\<exists>sts' rs' st'. run sel md5 now rs st ropts = Some (Finished sts' rs' st')
            \<and> filter (\<lambda>r. r_session_id r = s_id x) (dev_ai_smart_extractions st')
                = filter (\<lambda>r. r_session_id r = s_id x) (dev_ai_smart_extractions st)))
   \<and> (truthy (sessionId opts) \<and> online st
        \<and> filter (\<lambda>s. s_id s = the (sessionId opts)) (dev_ai_sessions st) = [y] \<longrightarrow>
      selectSessions st now opts = [y] \<and> selectSessions_checked st now opts = [y])"
proof (intro conjI impI)
  assume w: "\<not> truthy (sessionId opts)"
  show "\<forall>s\<in>set (selectSessions st now opts). status s \<noteq> ''extracted''"
    using selectSessions_window_member[OF w] by blast
  show "\<forall>s\<in>set (selectSessions_checked st now opts). status s \<noteq> ''extracted''"
    using selectSessions_checked_window_member[OF w] by auto
next
  assume "\<not> truthy (o_session ropts) \<and> (sel = selectSessions \<or> sel = selectSessions_checked)
        \<and> x \<in> set (dev_ai_sessions st) \<and> status x = ''extracted''
        \<and> distinct (map s_id (dev_ai_sessions st))"
  then show "run sel md5 now rs st ropts = Some Exit1
      \<or> (\<exists>sts' rs' st'. run sel md5 now rs st ropts = Some (Finished sts' rs' st')
            \<and> filter (\<lambda>r. r_session_id r = s_id x) (dev_ai_smart_extractions st')
                = filter (\<lambda>r. r_session_id r = s_id x) (dev_ai_smart_extractions st))"
    using window_run_leaves_extracted_session[of ropts sel x st md5 now rs] by blast
next
  assume a: "truthy (sessionId opts) \<and> online st
        \<and> filter (\<lambda>s. s_id s = the (sessionId opts)) (dev_ai_sessions st) = [y]"
  then show "selectSessions st now opts = [y]"
    by (simp add: selectSessions_def select_by_id_single)
  from a show "selectSessions_checked st now opts = [y]"
    by (simp add: selectSessions_checked_def select_by_id_single)
qed

theorem extracted_sessions_gated_in_window_mode_witness:
  "\<not> truthy (sessionId (window_options 2))
   \<and> session_a \<in> set (selectSessions example_store 3000 (window_options 2))
   \<and> status session_a \<noteq> ''extracted''
   \<and> \<not> truthy (o_session window_run)
   \<and> session_x \<in> set (dev_ai_sessions example_store) \<and> status session_x = ''extracted''
   \<and> distinct (map s_id (dev_ai_sessions example_store))
   \<and> staged_ids (run selectSessions plain_digest 3000 empty_cache example_store window_run)
       = [''a'', ''a'', ''b'', ''b'']
   \<and> (run selectSessions plain_digest 3000 empty_cache example_store window_run = Some Exit1
       \<or> (\<exists>sts' rs' st'.
             run selectSessions plain_digest 3000 empty_cache example_store window_run
               = Some (Finished sts' rs' st')
             \<and> filter (\<lambda>r. r_session_id r = s_id session_x) (dev_ai_smart_extractions st')
                 = filter (\<lambda>r. r_session_id r = s_id session_x)
                     (dev_ai_smart_extractions example_store)))
   \<and> truthy (sessionId (by_id_options ''x'')) \<and> online example_store
   \<and> filter (\<lambda>s. s_id s = the (sessionId (by_id_options ''x'')))
        (dev_ai_sessions example_store) = [session_x]
   \<and> selectSessions_checked example_store 3000 (by_id_options ''x'') = [session_x]"
proof -
  have h: "\<not> truthy (sessionId (window_options 2))"
    by (simp add: window_options_def truthy_def)
  have m: "session_a \<in> set (selectSessions example_store 3000 (window_options 2))"
    by (simp add: example_window_2)
  have t: "truthy (sessionId (by_id_options ''x''))"
    by (simp add: by_id_options_def truthy_def)
  have up: "online example_store"
    by (simp add: example_store_def)
  have f: "filter (\<lambda>s. s_id s = the (sessionId (by_id_options ''x'')))
             (dev_ai_sessions example_store) = [session_x]"
    by (simp add: example_store_def by_id_options_def session_a_def session_b_def
                  session_x_def)
  have rw: "\<not> truthy (o_session window_run)"
    by (simp add: window_run_def truthy_def)
  have xs: "session_x \<in> set (dev_ai_sessions example_store)" "status session_x = ''extracted''"
    "distinct (map s_id (dev_ai_sessions example_store))"
    by (simp_all add: example_store_def session_a_def session_b_def session_x_def)
  note inst1 = extracted_sessions_gated_in_window_mode
         [of "window_options 2" example_store 3000 window_run selectSessions session_x
             plain_digest empty_cache session_x]
  from inst1 h m have c1: "status session_a \<noteq> ''extracted''" by blast
  from inst1 rw xs
  have c2: "run selectSessions plain_digest 3000 empty_cache example_store window_run
              = Some Exit1
       \<or> (\<exists>sts' rs' st'.
             run selectSessions plain_digest 3000 empty_cache example_store window_run
               = Some (Finished sts' rs' st')
             \<and> filter (\<lambda>r. r_session_id r = s_id session_x) (dev_ai_smart_extractions st')
                 = filter (\<lambda>r. r_session_id r = s_id session_x)
                     (dev_ai_smart_extractions example_store))"
    by blast
  from extracted_sessions_gated_in_window_mode
         [of "by_id_options ''x''" example_store 3000 window_run selectSessions session_x
             plain_digest empty_cache session_x] t up f
  have c3: "selectSessions_checked example_store 3000 (by_id_options ''x'') = [session_x]"
    by blast
  from h m c1 rw xs window_run_staged c2 t up f c3 show ?thesis by blast
qed

section \<open>The topic of the work log\<close>








end
